theory Spec2Isabelle
  imports Complex_Main "HOL-Library.Log_Nat"
begin

section \<open>Python values and exceptions\<close>

text \<open>
  The invoice service is Python. An exception that leaves a function is a value of
  \<open>py_error\<close> on the left of a sum; a normal return is on the right. Python's \<open>int\<close> is
  unbounded and is modelled by \<open>int\<close>, whose \<open>div\<close> and \<open>mod\<close> round towards minus infinity
  as Python's \<open>//\<close> and \<open>%\<close> do. A Python \<open>str\<close> is a \<open>string\<close>; a character stands for the
  code point of the same number (code points below 256).
\<close>

datatype py_error =
  IndexError | TypeError | ValueError | AttributeError | OverflowError | KeyError
  | ZeroDivisionError | JSONDecodeError

text \<open>Sequencing: the second computation runs only when the first did not raise.\<close>

definition and_then :: "'e + 'a \<Rightarrow> ('a \<Rightarrow> 'e + 'b) \<Rightarrow> 'e + 'b" where
  "and_then m f = (case m of Inl e \<Rightarrow> Inl e | Inr x \<Rightarrow> f x)"

text \<open>\<open>xs[i]\<close> on a Python list: a negative index counts from the end, anything else raises.\<close>

definition getitem :: "'a list \<Rightarrow> int \<Rightarrow> py_error + 'a" where
  "getitem xs i =
     (if 0 \<le> i \<and> i < int (length xs) then Inr (xs ! nat i)
      else if i < 0 \<and> - int (length xs) \<le> i then Inr (xs ! nat (int (length xs) + i))
      else Inl IndexError)"

text \<open>\<open>sep.join(parts)\<close>.\<close>

fun join :: "string \<Rightarrow> string list \<Rightarrow> string" where
  "join sep [] = []"
| "join sep [p] = p"
| "join sep (p # q # ps) = p @ sep @ join sep (q # ps)"

section \<open>Amount in words (\<open>number_to_words\<close>)\<close>

definition ones :: "string list" where
  "ones = ['''', ''One'', ''Two'', ''Three'', ''Four'', ''Five'', ''Six'', ''Seven'',
           ''Eight'', ''Nine'']"

definition tens :: "string list" where
  "tens = ['''', '''', ''Twenty'', ''Thirty'', ''Forty'', ''Fifty'', ''Sixty'', ''Seventy'',
           ''Eighty'', ''Ninety'']"

definition teens :: "string list" where
  "teens = [''Ten'', ''Eleven'', ''Twelve'', ''Thirteen'', ''Fourteen'', ''Fifteen'',
            ''Sixteen'', ''Seventeen'', ''Eighteen'', ''Nineteen'']"

text \<open>
  The nested function \<open>convert_below_thousand\<close>. The source does not check its argument:
  a table read out of range raises \<open>IndexError\<close>, and a negative argument reads the
  tables from the end.
\<close>

function convert_below_thousand :: "int \<Rightarrow> py_error + string" where
  "convert_below_thousand n =
     (if n = 0 then Inr ''''
      else if n < 10 then getitem ones n
      else if n < 20 then getitem teens (n - 10)
      else if n < 100 then
        (case getitem tens (n div 10) of
           Inl e \<Rightarrow> Inl e
         | Inr t \<Rightarrow>
             if n mod 10 \<noteq> 0 then
               (case getitem ones (n mod 10) of
                  Inl e \<Rightarrow> Inl e
                | Inr u \<Rightarrow> Inr (t @ '' '' @ u))
             else Inr (t @ ''''))
      else
        (case getitem ones (n div 100) of
           Inl e \<Rightarrow> Inl e
         | Inr h \<Rightarrow>
             (case convert_below_thousand (n mod 100) of
                Inl e \<Rightarrow> Inl e
              | Inr remainder \<Rightarrow>
                  Inr ((h @ '' Hundred'') @ (if remainder \<noteq> '''' then '' '' @ remainder else '''')))))"
  by pat_completeness auto
termination
  by (relation "measure nat") auto

text \<open>
  Lines 96 to 102 of the source: the argument is cut into its crore, lakh, thousand
  and remaining groups by successive \<open>//\<close> and \<open>%=\<close>.
\<close>

definition indian_groups :: "int \<Rightarrow> int \<times> int \<times> int \<times> int" where
  "indian_groups num =
     (let crore = num div 10000000;
          num1 = num mod 10000000;
          lakh = num1 div 100000;
          num2 = num1 mod 100000;
          thousand = num2 div 1000;
          num3 = num2 mod 1000
      in (crore, lakh, thousand, num3))"

text \<open>
  One \<open>if group: result.append(convert_below_thousand(group) + suffix)\<close> of the source:
  the list built so far, extended when the group is not zero.
\<close>

definition append_group :: "int \<Rightarrow> string \<Rightarrow> string list \<Rightarrow> py_error + string list" where
  "append_group g suffix result =
     (if g \<noteq> 0 then
        (case convert_below_thousand g of
           Inl e \<Rightarrow> Inl e
         | Inr w \<Rightarrow> Inr (result @ [w @ suffix]))
      else Inr result)"

definition number_to_words :: "int \<Rightarrow> py_error + string" where
  "number_to_words num =
     (if num = 0 then Inr ''Zero''
      else
        (case indian_groups num of
           (crore, lakh, thousand, num3) \<Rightarrow>
             (case append_group crore '' Crore'' [] of
                Inl e \<Rightarrow> Inl e
              | Inr r1 \<Rightarrow>
                  (case append_group lakh '' Lakh'' r1 of
                     Inl e \<Rightarrow> Inl e
                   | Inr r2 \<Rightarrow>
                       (case append_group thousand '' Thousand'' r2 of
                          Inl e \<Rightarrow> Inl e
                        | Inr r3 \<Rightarrow>
                            (case append_group num3 '''' r3 of
                               Inl e \<Rightarrow> Inl e
                             | Inr r4 \<Rightarrow> Inr (join '' '' r4)))))))"


section \<open>Python floats\<close>

text \<open>
  A Python \<open>float\<close> is an IEEE 754 binary64 number. A finite float is modelled by its exact
  value, a rational; the two zeros are one value \<open>Fin 0\<close> (no function below tells them
  apart). The infinities and the one not-a-number are values of their own.
\<close>

datatype pyfloat = Fin rat | PInf | NInf | NaN

text \<open>
  \<open>ilog2 q\<close> is the binary exponent of a positive rational: \<open>2 powi (ilog2 q) \<le> q\<close> and
  \<open>q < 2 powi (ilog2 q + 1)\<close>. \<open>round_half_even\<close> rounds a rational to the nearest integer, a
  tie to the even one.
\<close>

definition ilog2 :: "rat \<Rightarrow> int" where
  "ilog2 q = (if 1 \<le> q then int (floorlog 2 (nat \<lfloor>q\<rfloor>)) - 1
              else - int (floorlog 2 (nat (\<lceil>1 / q\<rceil> - 1))))"

definition round_half_even :: "rat \<Rightarrow> int" where
  "round_half_even q =
     (let f = \<lfloor>q\<rfloor>; r = q - of_int f
      in if r < 1 / 2 then f else if 1 / 2 < r then f + 1 else if even f then f else f + 1)"

text \<open>
  Rounding to binary64, to nearest with ties to even: the result is a 53-bit integer
  times a power of two no smaller than \<open>2 powi (- 1074)\<close> (below the normal range the spacing
  stays at that least power), and a result that reaches \<open>2 ^ 1024\<close> is an infinity.
\<close>

definition min_exp :: int where
  "min_exp = - 1074"

definition overflow_threshold :: rat where
  "overflow_threshold = 2 ^ 1024"

definition to_double :: "rat \<Rightarrow> pyfloat" where
  "to_double q =
     (if q = 0 then Fin 0
      else
        let e = max (ilog2 \<bar>q\<bar> - 52) min_exp;
            m = round_half_even (\<bar>q\<bar> / 2 powi e);
            v = of_int m * 2 powi e
        in if overflow_threshold \<le> v then (if 0 < q then PInf else NInf) else Fin (sgn q * v))"

fun fneg :: "pyfloat \<Rightarrow> pyfloat" where
  "fneg (Fin q) = Fin (- q)"
| "fneg PInf = NInf"
| "fneg NInf = PInf"
| "fneg NaN = NaN"

text \<open>
  \<open>is_double q\<close>: the rational \<open>q\<close> is the value of a float.
\<close>

definition is_double :: "rat \<Rightarrow> bool" where
  "is_double q \<longleftrightarrow> to_double q = Fin q"


section \<open>Python values and operations\<close>

text \<open>
  The values that a decoded JSON document holds, which are the values the service receives:
  \<open>None\<close>, booleans, integers, floats, strings, lists and dictionaries with string keys. A
  dictionary is an association list read with \<open>map_of\<close>; \<open>dict_get d k dflt\<close> is
  \<open>d.get(k, dflt)\<close>.
\<close>

datatype pyval =
  PNone | PBool bool | PInt int | PFloat pyfloat | PStr string
  | PList "pyval list" | PDict "(string \<times> pyval) list"

definition dict_get :: "(string \<times> pyval) list \<Rightarrow> string \<Rightarrow> pyval \<Rightarrow> pyval" where
  "dict_get d k dflt = (case map_of d k of Some v \<Rightarrow> v | None \<Rightarrow> dflt)"

subsection \<open>Float arithmetic\<close>

text \<open>
  The float operations the service uses. Every operation on finite floats is the exact
  operation followed by rounding. \<open>fdiv\<close> is \<open>/\<close>, which raises \<open>ZeroDivisionError\<close> on a
  zero divisor; \<open>fless\<close>, \<open>fgt\<close> and \<open>fle\<close> are \<open><\<close>, \<open>>\<close> and \<open><=\<close>, false whenever an
  argument is not a number.
\<close>

fun fadd :: "pyfloat \<Rightarrow> pyfloat \<Rightarrow> pyfloat" where
  "fadd (Fin a) (Fin b) = to_double (a + b)"
| "fadd NaN y = NaN"
| "fadd x NaN = NaN"
| "fadd PInf NInf = NaN"
| "fadd NInf PInf = NaN"
| "fadd PInf y = PInf"
| "fadd x PInf = PInf"
| "fadd NInf y = NInf"
| "fadd x NInf = NInf"

definition fsub :: "pyfloat \<Rightarrow> pyfloat \<Rightarrow> pyfloat" where
  "fsub x y = fadd x (fneg y)"

definition signed_inf :: "bool \<Rightarrow> pyfloat" where
  "signed_inf positive = (if positive then PInf else NInf)"

fun fmul :: "pyfloat \<Rightarrow> pyfloat \<Rightarrow> pyfloat" where
  "fmul (Fin a) (Fin b) = to_double (a * b)"
| "fmul NaN y = NaN"
| "fmul x NaN = NaN"
| "fmul (Fin a) PInf = (if a = 0 then NaN else signed_inf (0 < a))"
| "fmul (Fin a) NInf = (if a = 0 then NaN else signed_inf (a < 0))"
| "fmul PInf (Fin b) = (if b = 0 then NaN else signed_inf (0 < b))"
| "fmul NInf (Fin b) = (if b = 0 then NaN else signed_inf (b < 0))"
| "fmul PInf PInf = PInf"
| "fmul PInf NInf = NInf"
| "fmul NInf PInf = NInf"
| "fmul NInf NInf = PInf"

fun fdiv :: "pyfloat \<Rightarrow> pyfloat \<Rightarrow> py_error + pyfloat" where
  "fdiv x (Fin b) =
     (if b = 0 then Inl ZeroDivisionError
      else Inr (case x of
                  Fin a \<Rightarrow> to_double (a / b)
                | PInf \<Rightarrow> signed_inf (0 < b)
                | NInf \<Rightarrow> signed_inf (b < 0)
                | NaN \<Rightarrow> NaN))"
| "fdiv (Fin a) PInf = Inr (Fin 0)"
| "fdiv (Fin a) NInf = Inr (Fin 0)"
| "fdiv x y = Inr NaN"

fun fabs :: "pyfloat \<Rightarrow> pyfloat" where
  "fabs (Fin q) = Fin \<bar>q\<bar>"
| "fabs PInf = PInf"
| "fabs NInf = PInf"
| "fabs NaN = NaN"

fun fless :: "pyfloat \<Rightarrow> pyfloat \<Rightarrow> bool" where
  "fless (Fin a) (Fin b) = (a < b)"
| "fless NaN y = False"
| "fless x NaN = False"
| "fless x NInf = False"
| "fless NInf y = True"
| "fless PInf y = False"
| "fless x PInf = True"

definition fgt :: "pyfloat \<Rightarrow> pyfloat \<Rightarrow> bool" where
  "fgt x y = fless y x"

definition fle :: "pyfloat \<Rightarrow> pyfloat \<Rightarrow> bool" where
  "fle x y = (x \<noteq> NaN \<and> y \<noteq> NaN \<and> \<not> fless y x)"

text \<open>
  \<open>round(x)\<close> returns an integer, ties to even, and raises on a not-a-number
  (\<open>ValueError\<close>) and on an infinity (\<open>OverflowError\<close>). \<open>round(x, n)\<close> returns the float
  nearest to the decimal of \<open>n\<close> places nearest to \<open>x\<close>. \<open>float(i)\<close> on an integer raises
  \<open>OverflowError\<close> when the nearest float would be an infinity; \<open>int(x)\<close> truncates towards
  zero; \<open>fmod1 x\<close> is \<open>x % 1\<close>.
\<close>

fun py_round :: "pyfloat \<Rightarrow> py_error + int" where
  "py_round (Fin q) = Inr (round_half_even q)"
| "py_round NaN = Inl ValueError"
| "py_round x = Inl OverflowError"

fun round_ndigits :: "pyfloat \<Rightarrow> nat \<Rightarrow> pyfloat" where
  "round_ndigits (Fin q) n = to_double (of_int (round_half_even (q * 10 ^ n)) / 10 ^ n)"
| "round_ndigits x n = x"

definition float_of_int :: "int \<Rightarrow> py_error + pyfloat" where
  "float_of_int n =
     (case to_double (of_int n) of Fin q \<Rightarrow> Inr (Fin q) | x \<Rightarrow> Inl OverflowError)"

fun int_of_float :: "pyfloat \<Rightarrow> py_error + int" where
  "int_of_float (Fin q) = Inr (if 0 \<le> q then \<lfloor>q\<rfloor> else \<lceil>q\<rceil>)"
| "int_of_float NaN = Inl ValueError"
| "int_of_float x = Inl OverflowError"

fun fmod1 :: "pyfloat \<Rightarrow> pyfloat" where
  "fmod1 (Fin q) = to_double (q - of_int \<lfloor>q\<rfloor>)"
| "fmod1 x = NaN"

subsection \<open>Strings\<close>

text \<open>
  \<open>str.strip()\<close> removes the white space of Python strings at both ends (the code points
  below 256 that \<open>str.isspace\<close> accepts); \<open>split_once sep s\<close> is \<open>s.split(sep, 1)\<close> and
  \<open>remove_all x s\<close> is \<open>s.replace(x, '')\<close>.
\<close>

definition is_space :: "char \<Rightarrow> bool" where
  "is_space c \<longleftrightarrow> (of_char c :: nat) \<in> {9, 10, 11, 12, 13, 28, 29, 30, 31, 32, 133, 160}"

definition strip :: "string \<Rightarrow> string" where
  "strip s = rev (dropWhile is_space (rev (dropWhile is_space s)))"

definition split_once :: "char \<Rightarrow> string \<Rightarrow> string list" where
  "split_once sep s =
     (if sep \<in> set s
      then [takeWhile (\<lambda>c. c \<noteq> sep) s, tl (dropWhile (\<lambda>c. c \<noteq> sep) s)]
      else [s])"

definition remove_all :: "char \<Rightarrow> string \<Rightarrow> string" where
  "remove_all x s = filter (\<lambda>c. c \<noteq> x) s"

text \<open>
  Decimal digits, and \<open>str(i)\<close> for an integer \<open>i\<close>: \<open>str_nat\<close> writes a natural number in
  decimal, most significant digit first, and \<open>str_int\<close> puts a minus sign before a negative
  one.
\<close>

definition is_digit :: "char \<Rightarrow> bool" where
  "is_digit c \<longleftrightarrow> 48 \<le> (of_char c :: nat) \<and> (of_char c :: nat) \<le> 57"

definition digit_value :: "char \<Rightarrow> nat" where
  "digit_value c = of_char c - 48"

definition digits_value :: "string \<Rightarrow> nat" where
  "digits_value ds = foldl (\<lambda>n c. 10 * n + digit_value c) 0 ds"

definition digit_char :: "nat \<Rightarrow> char" where
  "digit_char d = char_of (48 + d)"

definition to_lower :: "char \<Rightarrow> char" where
  "to_lower c =
     (if 65 \<le> (of_char c :: nat) \<and> (of_char c :: nat) \<le> 90
      then char_of ((of_char c :: nat) + 32) else c)"

function str_nat :: "nat \<Rightarrow> string" where
  "str_nat n = (if n < 10 then [digit_char n] else str_nat (n div 10) @ [digit_char (n mod 10)])"
  by pat_completeness auto
termination
  by (relation "measure id") auto

declare str_nat.simps [simp del]

definition str_int :: "int \<Rightarrow> string" where
  "str_int i = (if i < 0 then ''-'' @ str_nat (nat (- i)) else str_nat (nat i))"

text \<open>
  \<open>float(s)\<close> on a string. White space is removed at both ends (here the ASCII white space
  and, above it, the characters \<open>str.isspace\<close> accepts). An underscore is allowed between
  two digits only. What remains is an optional sign followed by \<open>inf\<close>, \<open>infinity\<close> or \<open>nan\<close>
  in any case, or by a decimal numeral: digits with an optional point, at least one digit
  in all, and an optional exponent \<open>e\<close> or \<open>E\<close> with an optional sign and at least one digit.
  The value is the numeral rounded to the nearest float, so that a numeral beyond the
  range gives an infinity and raises nothing. Anything else is a \<open>ValueError\<close>, here \<open>None\<close>.
\<close>

fun underscores_ok :: "char \<Rightarrow> string \<Rightarrow> bool" where
  "underscores_ok prev [] = (prev \<noteq> CHR ''_'')"
| "underscores_ok prev (c # cs) =
     ((if c = CHR ''_'' then is_digit prev
       else if prev = CHR ''_'' then is_digit c else True)
      \<and> underscores_ok c cs)"

definition split_sign :: "string \<Rightarrow> bool \<times> string" where
  "split_sign s =
     (case s of
        [] \<Rightarrow> (False, s)
      | c # r \<Rightarrow>
          if c = CHR ''-'' then (True, r) else if c = CHR ''+'' then (False, r) else (False, s))"

definition parse_decimal :: "string \<Rightarrow> rat option" where
  "parse_decimal u =
     (let d1 = takeWhile is_digit u;
          r1 = dropWhile is_digit u;
          has_point = (r1 \<noteq> [] \<and> hd r1 = CHR ''.'');
          d2 = (if has_point then takeWhile is_digit (tl r1) else []);
          r2 = (if has_point then dropWhile is_digit (tl r1) else r1);
          mantissa = rat_of_nat (digits_value (d1 @ d2))
      in if d1 = [] \<and> d2 = [] then None
         else if r2 = [] then Some (mantissa * 10 powi (- int (length d2)))
         else if hd r2 = CHR ''e'' \<or> hd r2 = CHR ''E'' then
           (case split_sign (tl r2) of
              (negative, t) \<Rightarrow>
                if t = [] \<or> \<not> list_all is_digit t then None
                else Some (mantissa *
                  10 powi ((if negative then - int (digits_value t) else int (digits_value t))
                           - int (length d2))))
         else None)"

definition is_float_space :: "char \<Rightarrow> bool" where
  "is_float_space c \<longleftrightarrow> (of_char c :: nat) \<in> {9, 10, 11, 12, 13, 32, 133, 160}"

definition float_strip :: "string \<Rightarrow> string" where
  "float_strip s = rev (dropWhile is_float_space (rev (dropWhile is_float_space s)))"

definition float_of_str :: "string \<Rightarrow> pyfloat option" where
  "float_of_str s0 =
     (let s = float_strip s0 in
      if \<not> underscores_ok (CHR 0x00) s then None
      else
        (case split_sign (remove_all CHR ''_'' s) of
           (negative, u) \<Rightarrow>
             if map to_lower u = ''inf'' \<or> map to_lower u = ''infinity''
             then Some (if negative then NInf else PInf)
             else if map to_lower u = ''nan'' then Some NaN
             else (case parse_decimal u of
                     None \<Rightarrow> None
                   | Some q \<Rightarrow> Some (to_double (if negative then - q else q)))))"

text \<open>
  \<open>float(v)\<close> on a value; a boolean is the integer 0 or 1, and \<open>None\<close>, a list or a
  dictionary raise \<open>TypeError\<close>.
\<close>

fun py_float :: "pyval \<Rightarrow> py_error + pyfloat" where
  "py_float (PStr s) = (case float_of_str s of None \<Rightarrow> Inl ValueError | Some f \<Rightarrow> Inr f)"
| "py_float (PInt n) = float_of_int n"
| "py_float (PFloat f) = Inr f"
| "py_float (PBool b) = Inr (Fin (if b then 1 else 0))"
| "py_float v = Inl TypeError"

text \<open>
  Truth value of a value, \<open>k in v\<close> for a string \<open>k\<close> (membership in the keys of a
  dictionary, in the elements of a list, substring of a string, \<open>TypeError\<close> otherwise),
  \<open>v[k]\<close>, \<open>v.get(k, dflt)\<close> (only a dictionary has \<open>get\<close>: \<open>AttributeError\<close> otherwise) and
  the elements that \<open>for x in v\<close> runs through.
\<close>

fun py_truthy :: "pyval \<Rightarrow> bool" where
  "py_truthy PNone = False"
| "py_truthy (PBool b) = b"
| "py_truthy (PInt n) = (n \<noteq> 0)"
| "py_truthy (PFloat f) = (f \<noteq> Fin 0)"
| "py_truthy (PStr s) = (s \<noteq> [])"
| "py_truthy (PList xs) = (xs \<noteq> [])"
| "py_truthy (PDict d) = (d \<noteq> [])"

definition substring :: "string \<Rightarrow> string \<Rightarrow> bool" where
  "substring p s = list_ex (\<lambda>i. take (length p) (drop i s) = p) [0..<Suc (length s)]"

fun py_contains :: "string \<Rightarrow> pyval \<Rightarrow> py_error + bool" where
  "py_contains k (PDict d) = Inr (k \<in> fst ` set d)"
| "py_contains k (PList xs) = Inr (PStr k \<in> set xs)"
| "py_contains k (PStr s) = Inr (substring k s)"
| "py_contains k v = Inl TypeError"

fun py_getitem_str :: "pyval \<Rightarrow> string \<Rightarrow> py_error + pyval" where
  "py_getitem_str (PDict d) k = (case map_of d k of None \<Rightarrow> Inl KeyError | Some v \<Rightarrow> Inr v)"
| "py_getitem_str v k = Inl TypeError"

fun py_get :: "pyval \<Rightarrow> string \<Rightarrow> pyval \<Rightarrow> py_error + pyval" where
  "py_get (PDict d) k dflt = Inr (dict_get d k dflt)"
| "py_get v k dflt = Inl AttributeError"

fun py_iter :: "pyval \<Rightarrow> py_error + pyval list" where
  "py_iter (PList xs) = Inr xs"
| "py_iter (PDict d) = Inr (map (\<lambda>kv. PStr (fst kv)) d)"
| "py_iter (PStr s) = Inr (map (\<lambda>c. PStr [c]) s)"
| "py_iter v = Inl TypeError"

section \<open>Configuration (\<open>config.py\<close>)\<close>

definition DEFAULT_CUSTOMER_GSTIN :: pyval where
  "DEFAULT_CUSTOMER_GSTIN = PStr ''20AAATC2716R2ZS''"


section \<open>Utility functions\<close>

text \<open>
  \<open>safe_float\<close>, lines 118 to 136 of \<open>invoice_generator.py\<close>: the default for \<open>None\<close> and
  for the empty string; otherwise \<open>float\<close> of the value, of a string once its commas are
  removed; a \<open>ValueError\<close> or an \<open>AttributeError\<close> raised by the conversion gives the
  default, any other exception leaves the function.
\<close>

definition safe_float :: "pyval \<Rightarrow> pyfloat \<Rightarrow> py_error + pyfloat" where
  "safe_float v dflt =
     (if v = PNone \<or> v = PStr '''' then Inr dflt
      else
        (case (case v of PStr s \<Rightarrow> py_float (PStr (remove_all CHR '','' s)) | w \<Rightarrow> py_float w) of
           Inr f \<Rightarrow> Inr f
         | Inl e \<Rightarrow> if e = ValueError \<or> e = AttributeError then Inr dflt else Inl e))"

text \<open>
  A number is an integer or a float. The configured default rates are the integers 9.
\<close>

datatype number = Int_Number int | Float_Number pyfloat

definition DEFAULT_CGST_RATE :: number where
  "DEFAULT_CGST_RATE = Int_Number 9"

definition DEFAULT_SGST_RATE :: number where
  "DEFAULT_SGST_RATE = Int_Number 9"

text \<open>
  \<open>format_2f x\<close> is \<open>f"{x:.2f}"\<close>: the decimal with two places nearest to \<open>x\<close>, ties to even,
  with a minus sign for a negative \<open>x\<close>. \<open>format_amount\<close>, lines 139 to 151: two decimals
  when \<open>amount % 1 != 0\<close>, otherwise \<open>str(int(amount))\<close>.
\<close>

definition format_2f :: "pyfloat \<Rightarrow> string" where
  "format_2f x =
     (case x of
        Fin q \<Rightarrow>
          (let c = nat (round_half_even (\<bar>q\<bar> * 100))
           in (if q < 0 then ''-'' else '''') @ str_nat (c div 100) @ ''.'' @
              [digit_char (c mod 100 div 10), digit_char (c mod 10)])
      | PInf \<Rightarrow> ''inf''
      | NInf \<Rightarrow> ''-inf''
      | NaN \<Rightarrow> ''nan'')"

definition format_amount :: "number \<Rightarrow> py_error + string" where
  "format_amount amount =
     (case amount of
        Int_Number n \<Rightarrow>
          if n mod 1 \<noteq> 0 then and_then (float_of_int n) (\<lambda>x. Inr (format_2f x))
          else Inr (str_int n)
      | Float_Number x \<Rightarrow>
          if fmod1 x \<noteq> Fin 0 then Inr (format_2f x)
          else and_then (int_of_float x) (\<lambda>n. Inr (str_int n)))"

section \<open>The input normaliser (\<open>InvoiceGenerator._transform_input\<close>)\<close>

text \<open>
  The dictionary that \<open>_transform_input\<close> returns, as records. A field that the source
  copies from the input as it is has the type of values; \<open>round_off\<close> is a float or the
  empty string; a rate and the invoice total are numbers: the default rate and the
  rounded total are integers, a computed rate and a supplied total are floats.
\<close>

record item =
  description :: pyval
  hsn_code :: pyval
  quantity :: string
  rate :: string
  amount :: pyfloat

record customer =
  name :: string
  address :: string
  gstin :: pyval

record tax_summary =
  taxable_amount :: pyfloat
  cgst_rate :: number
  cgst_amount :: pyfloat
  sgst_rate :: number
  sgst_amount :: pyfloat
  igst_rate :: pyval
  round_off :: pyval
  invoice_total :: number

record 'c invoice =
  company :: 'c
  invoice_number :: pyval
  invoice_date :: pyval
  customer :: customer
  job_description :: pyval
  event_name :: pyval
  items :: "item list"
  tax_summary :: tax_summary

text \<open>
  \<open>_parse_customer_info\<close>, lines 434 to 447.
\<close>

definition parse_customer_info :: "string \<Rightarrow> string \<times> string" where
  "parse_customer_info to_field =
     (let to_parts = split_once CHR '','' to_field;
          customer_name = (if to_parts \<noteq> [] then strip (to_parts ! 0) else '''');
          customer_address = (if 1 < length to_parts then strip (to_parts ! 1) else to_field)
      in (customer_name, customer_address))"

text \<open>
  \<open>_transform_items\<close>, lines 449 to 468. \<open>str_of\<close> stands for Python's \<open>str\<close>, which the
  source applies to the quantity and to the rate.
\<close>

definition transform_item :: "(pyval \<Rightarrow> string) \<Rightarrow> pyval \<Rightarrow> py_error + item" where
  "transform_item str_of it =
     and_then (py_get it ''name'' (PStr '''')) (\<lambda>nm.
     and_then (py_get it ''hsn'' (PStr '''')) (\<lambda>hsn.
     and_then (py_get it ''qty'' (PStr '''')) (\<lambda>qty.
     and_then (py_get it ''rate'' (PStr '''')) (\<lambda>rt.
     and_then (py_get it ''amount'' (PInt 0)) (\<lambda>amt.
     and_then (safe_float amt (Fin 0)) (\<lambda>a.
       Inr \<lparr>description = nm, hsn_code = hsn, quantity = str_of qty, rate = str_of rt,
            amount = a\<rparr>))))))"

fun transform_each :: "(pyval \<Rightarrow> string) \<Rightarrow> pyval list \<Rightarrow> py_error + item list" where
  "transform_each str_of [] = Inr []"
| "transform_each str_of (it # rest) =
     and_then (transform_item str_of it) (\<lambda>t.
     and_then (transform_each str_of rest) (\<lambda>ts. Inr (t # ts)))"

definition transform_items :: "(pyval \<Rightarrow> string) \<Rightarrow> pyval \<Rightarrow> py_error + item list" where
  "transform_items str_of its = and_then (py_iter its) (transform_each str_of)"

text \<open>
  \<open>_calculate_tax_rate\<close>, lines 470 to 484.
\<close>

definition calculate_tax_rate :: "pyfloat \<Rightarrow> pyfloat \<Rightarrow> number \<Rightarrow> py_error + number" where
  "calculate_tax_rate tax_amount taxable default_rate =
     (if fgt taxable (Fin 0) \<and> fgt tax_amount (Fin 0) then
        and_then (fdiv tax_amount taxable) (\<lambda>ratio.
          Inr (Float_Number (round_ndigits (fmul ratio (Fin 100)) 2)))
      else Inr default_rate)"

text \<open>
  \<open>_transform_input\<close>, lines 368 to 432, statement by statement; the first exception raised
  leaves the function. \<open>invoice_data.get\<close> raises \<open>AttributeError\<close> unless \<open>invoice_data\<close> is
  a dictionary, and so does \<open>to_field.split\<close> unless the \<open>to\<close> field is a string. In
  \<open>rounded_total - actual_total\<close> the integer is first converted to a float.
\<close>

definition transform_input :: "(pyval \<Rightarrow> string) \<Rightarrow> 'c \<Rightarrow> pyval \<Rightarrow> py_error + 'c invoice" where
  "transform_input str_of company_config invoice_data =
     (case invoice_data of
        PDict d \<Rightarrow>
          and_then (case dict_get d ''to'' (PStr '''') of
                      PStr s \<Rightarrow> Inr (parse_customer_info s)
                    | w \<Rightarrow> Inl AttributeError) (\<lambda>parsed.
          and_then (transform_items str_of (dict_get d ''items'' (PList []))) (\<lambda>transformed_items.
          and_then (safe_float (dict_get d ''taxable_amount'' (PStr ''0'')) (Fin 0)) (\<lambda>taxable.
          and_then (safe_float (dict_get d ''cgst'' (PStr ''0'')) (Fin 0)) (\<lambda>cgst_amt.
          and_then (safe_float (dict_get d ''sgst'' (PStr ''0'')) (Fin 0)) (\<lambda>sgst_amt.
          and_then (safe_float (dict_get d ''total'' (PStr ''0'')) (Fin 0)) (\<lambda>total_input.
          and_then (calculate_tax_rate cgst_amt taxable DEFAULT_CGST_RATE) (\<lambda>cgst_rt.
          and_then (calculate_tax_rate sgst_amt taxable DEFAULT_SGST_RATE) (\<lambda>sgst_rt.
          and_then (py_round (fadd (fadd taxable cgst_amt) sgst_amt)) (\<lambda>rounded_total.
          and_then (float_of_int rounded_total) (\<lambda>rounded_float.
            (let actual_total = fadd (fadd taxable cgst_amt) sgst_amt;
                 round_off_value = fabs (fsub rounded_float actual_total);
                 final_total = (if fgt total_input (Fin 0) then Float_Number total_input
                                else Int_Number rounded_total)
             in Inr \<lparr>company = company_config,
                     invoice_number = dict_get d ''invoice_no'' (PStr ''''),
                     invoice_date = dict_get d ''invoice_date'' (PStr ''''),
                     customer = \<lparr>name = fst parsed, address = snd parsed,
                                 gstin = dict_get d ''customer_gstin'' DEFAULT_CUSTOMER_GSTIN\<rparr>,
                     job_description = dict_get d ''job_description'' (PStr ''''),
                     event_name = dict_get d ''event_name'' (PStr ''''),
                     items = transformed_items,
                     tax_summary =
                       \<lparr>taxable_amount = taxable,
                        cgst_rate = cgst_rt,
                        cgst_amount = cgst_amt,
                        sgst_rate = sgst_rt,
                        sgst_amount = sgst_amt,
                        igst_rate = dict_get d ''igst_rate'' (PStr ''''),
                        round_off =
                          (if fgt (fabs round_off_value) (to_double (1 / 100))
                           then PFloat (round_ndigits round_off_value 2) else PStr ''''),
                        invoice_total = final_total\<rparr>\<rparr>)))))))))))
      | v \<Rightarrow> Inl AttributeError)"

section \<open>The request handler (\<open>lambda_function.py\<close>)\<close>

text \<open>
  What the handler takes from outside the two modules: the JSON decoder (\<open>None\<close> when it
  raises \<open>JSONDecodeError\<close>), base64 decoding followed by UTF-8 decoding, base64 encoding,
  \<open>str\<close>, the construction of the PDF from the transformed invoice, and the company
  configuration. The body of a response is the JSON object of an error, its message and
  the exception reported as its details, or the encoded PDF.
\<close>

record ('c, 'pdf) externals =
  json_loads :: "string \<Rightarrow> pyval option"
  b64decode_utf8 :: "string \<Rightarrow> py_error + string"
  b64encode :: "'pdf \<Rightarrow> string"
  py_str :: "pyval \<Rightarrow> string"
  build_pdf :: "'c invoice \<Rightarrow> py_error + 'pdf"
  company_config :: 'c

datatype response_body = Error_Body string "py_error option" | Pdf_Body string

record response =
  statusCode :: int
  headers :: "(string \<times> string) list option"
  body :: response_body
  isBase64Encoded :: "bool option"

text \<open>
  \<open>lambda_handler\<close>, lines 14 to 136 of \<open>lambda_function.py\<close>. \<open>parse_event\<close> is lines 63 to
  82, \<open>missing_fields\<close> the list comprehension of line 88, \<open>lambda_handler_try\<close> the body
  of the \<open>try\<close> and \<open>lambda_handler\<close> the two \<open>except\<close> clauses around it. The \<open>context\<close>
  argument is not used by the source, and the \<open>print\<close> calls are left out.
\<close>

definition required_fields :: "string list" where
  "required_fields =
     [''invoice_no'', ''invoice_date'', ''to'', ''items'', ''taxable_amount'', ''total'']"

definition parse_event :: "('c, 'pdf) externals \<Rightarrow> pyval \<Rightarrow> py_error + pyval" where
  "parse_event ext event =
     and_then (py_contains ''body'' event) (\<lambda>has_body.
       if has_body then
         and_then (py_getitem_str event ''body'') (\<lambda>body0.
         and_then (py_get event ''isBase64Encoded'' (PBool False)) (\<lambda>flag.
         and_then (case body0 of
                     PStr s \<Rightarrow>
                       if py_truthy flag
                       then and_then (b64decode_utf8 ext s) (\<lambda>t. Inr (PStr t))
                       else Inr body0
                   | w \<Rightarrow> Inr body0) (\<lambda>body1.
           (case body1 of
              PStr s \<Rightarrow>
                if s \<noteq> [] then
                  (case json_loads ext s of None \<Rightarrow> Inl JSONDecodeError | Some v \<Rightarrow> Inr v)
                else Inr body1
            | w \<Rightarrow> Inr body1))))
       else Inr event)"

fun missing_fields :: "string list \<Rightarrow> pyval \<Rightarrow> py_error + string list" where
  "missing_fields [] invoice_data = Inr []"
| "missing_fields (field # fs) invoice_data =
     and_then (py_contains field invoice_data) (\<lambda>present.
     and_then (missing_fields fs invoice_data) (\<lambda>others.
       Inr (if present then others else field # others)))"

definition generate_invoice :: "('c, 'pdf) externals \<Rightarrow> pyval \<Rightarrow> py_error + 'pdf" where
  "generate_invoice ext invoice_data =
     and_then (transform_input (py_str ext) (company_config ext) invoice_data) (build_pdf ext)"

definition lambda_handler_try :: "('c, 'pdf) externals \<Rightarrow> pyval \<Rightarrow> py_error + response" where
  "lambda_handler_try ext event =
     and_then (parse_event ext event) (\<lambda>invoice_data.
     and_then (missing_fields required_fields invoice_data) (\<lambda>missing.
       if missing \<noteq> [] then
         Inr \<lparr>statusCode = 400, headers = None,
              body = Error_Body (''Missing required fields: '' @ join '', '' missing) None,
              isBase64Encoded = None\<rparr>
       else
         and_then (generate_invoice ext invoice_data) (\<lambda>pdf_bytes.
         and_then (py_get invoice_data ''invoice_no'' (PStr ''unknown'')) (\<lambda>invoice_no.
           Inr \<lparr>statusCode = 200,
                headers = Some [(''Content-Type'', ''application/pdf''),
                  (''Content-Disposition'',
                   ''attachment; filename=invoice_'' @ py_str ext invoice_no @ ''.pdf'')],
                body = Pdf_Body (b64encode ext pdf_bytes),
                isBase64Encoded = Some True\<rparr>))))"

definition lambda_handler :: "('c, 'pdf) externals \<Rightarrow> pyval \<Rightarrow> response" where
  "lambda_handler ext event =
     (case lambda_handler_try ext event of
        Inr r \<Rightarrow> r
      | Inl e \<Rightarrow>
          if e = JSONDecodeError then
            \<lparr>statusCode = 400, headers = None,
             body = Error_Body ''Invalid JSON format'' (Some e), isBase64Encoded = None\<rparr>
          else
            \<lparr>statusCode = 500, headers = None,
             body = Error_Body ''Internal server error'' (Some e), isBase64Encoded = None\<rparr>)"

section \<open>Test data (\<open>test_decimal.py\<close>)\<close>

text \<open>
  The invoice of \<open>test_decimal.py\<close>, and the same invoice without its \<open>total\<close>.
  \<open>str_of_simple\<close> stands for Python's \<open>str\<close> on the values that occur in it: a string is
  itself and an integer is written in decimal. \<open>example_externals\<close> is an environment for
  the handler in which the PDF is built without error.
\<close>

definition test_decimal_invoice_data :: pyval where
  "test_decimal_invoice_data =
     PDict [(''invoice_no'', PStr ''TEST-DECIMAL-001''),
            (''invoice_date'', PStr ''09-Dec-2025''),
            (''to'', PStr ''The Director, CSIR - National Metallurgical Laboratory''),
            (''job_description'', PStr ''Test Invoice with Decimals''),
            (''items'', PList [PDict [(''name'', PStr ''Test Service Item''),
                                      (''hsn'', PStr ''997329''),
                                      (''qty'', PInt 1),
                                      (''rate'', PStr ''25401''),
                                      (''amount'', PStr ''25401'')]]),
            (''taxable_amount'', PStr ''25401''),
            (''cgst'', PStr ''2286.09''),
            (''sgst'', PStr ''2286.09''),
            (''total'', PStr ''29973.18'')]"

definition test_decimal_without_total :: pyval where
  "test_decimal_without_total =
     PDict [(''invoice_no'', PStr ''TEST-DECIMAL-001''),
            (''invoice_date'', PStr ''09-Dec-2025''),
            (''to'', PStr ''The Director, CSIR - National Metallurgical Laboratory''),
            (''job_description'', PStr ''Test Invoice with Decimals''),
            (''items'', PList [PDict [(''name'', PStr ''Test Service Item''),
                                      (''hsn'', PStr ''997329''),
                                      (''qty'', PInt 1),
                                      (''rate'', PStr ''25401''),
                                      (''amount'', PStr ''25401'')]]),
            (''taxable_amount'', PStr ''25401''),
            (''cgst'', PStr ''2286.09''),
            (''sgst'', PStr ''2286.09'')]"

fun str_of_simple :: "pyval \<Rightarrow> string" where
  "str_of_simple (PStr s) = s"
| "str_of_simple (PInt n) = str_int n"
| "str_of_simple v = ''''"

definition example_externals :: "(unit, string) externals" where
  "example_externals =
     \<lparr>json_loads = (\<lambda>s. None), b64decode_utf8 = (\<lambda>s. Inl ValueError), b64encode = (\<lambda>p. p),
      py_str = str_of_simple, build_pdf = (\<lambda>i. Inr ''pdf''), company_config = ()\<rparr>"

definition incomplete_invoice_data :: pyval where
  "incomplete_invoice_data =
     PDict [(''invoice_no'', PStr ''134''), (''invoice_date'', PStr ''05-Dec-2025''),
            (''to'', PStr ''ABC, 123 Street''), (''taxable_amount'', PStr ''25400'')]"

section \<open>Predicates on the strings produced\<close>

text \<open>
  \<open>adjacent_spaces s\<close>: two consecutive spaces occur in \<open>s\<close>. A string is \<open>tidy\<close> when it
  is not empty, neither starts nor ends with a space and has no two consecutive spaces;
  a \<open>word\<close> is a non-empty string without any space.
\<close>

fun adjacent_spaces :: "string \<Rightarrow> bool" where
  "adjacent_spaces [] = False"
| "adjacent_spaces [a] = False"
| "adjacent_spaces (a # b # cs) = ((a = CHR '' '' \<and> b = CHR '' '') \<or> adjacent_spaces (b # cs))"

definition tidy :: "string \<Rightarrow> bool" where
  "tidy s \<longleftrightarrow> s \<noteq> [] \<and> hd s \<noteq> CHR '' '' \<and> last s \<noteq> CHR '' '' \<and> \<not> adjacent_spaces s"

definition word :: "string \<Rightarrow> bool" where
  "word w \<longleftrightarrow> w \<noteq> [] \<and> CHR '' '' \<notin> set w"



section \<open>A reference reading of the words\<close>

text \<open>
  An independent reader of amounts in words, against which the output of
  \<open>number_to_words\<close> is checked. It is not part of the service. \<open>split_on\<close> cuts a string
  at every occurrence of a character; \<open>word_value\<close> is the value of a number word;
  \<open>read_word\<close> updates the crore, lakh and thousand groups read so far and the group being
  read: a number word adds its value to the current group, \<open>Hundred\<close> multiplies the
  current group by 100, and \<open>Crore\<close>, \<open>Lakh\<close> and \<open>Thousand\<close> close the current group.
  \<open>words_to_groups\<close> reads the four groups off a string and \<open>words_to_number\<close> weighs them.
\<close>

fun split_on :: "char \<Rightarrow> string \<Rightarrow> string list" where
  "split_on c [] = ['''']"
| "split_on c (x # xs) =
     (if x = c then [] # split_on c xs
      else (case split_on c xs of [] \<Rightarrow> [x # ''''] | w # ws \<Rightarrow> (x # w) # ws))"

definition word_value :: "string \<Rightarrow> int option" where
  "word_value w =
     map_of [(''Zero'', 0), (''One'', 1), (''Two'', 2), (''Three'', 3), (''Four'', 4), (''Five'', 5),
             (''Six'', 6), (''Seven'', 7), (''Eight'', 8), (''Nine'', 9), (''Ten'', 10),
             (''Eleven'', 11), (''Twelve'', 12), (''Thirteen'', 13), (''Fourteen'', 14),
             (''Fifteen'', 15), (''Sixteen'', 16), (''Seventeen'', 17), (''Eighteen'', 18),
             (''Nineteen'', 19), (''Twenty'', 20), (''Thirty'', 30), (''Forty'', 40),
             (''Fifty'', 50), (''Sixty'', 60), (''Seventy'', 70), (''Eighty'', 80),
             (''Ninety'', 90)] w"

fun read_word :: "int \<times> int \<times> int \<times> int \<Rightarrow> string \<Rightarrow> (int \<times> int \<times> int \<times> int) option" where
  "read_word (crore, lakh, thousand, cur) w =
     (if w = ''Crore'' then Some (cur, lakh, thousand, 0)
      else if w = ''Lakh'' then Some (crore, cur, thousand, 0)
      else if w = ''Thousand'' then Some (crore, lakh, cur, 0)
      else if w = ''Hundred'' then Some (crore, lakh, thousand, cur * 100)
      else (case word_value w of
              None \<Rightarrow> None
            | Some v \<Rightarrow> Some (crore, lakh, thousand, cur + v)))"

fun read_words :: "int \<times> int \<times> int \<times> int \<Rightarrow> string list \<Rightarrow> (int \<times> int \<times> int \<times> int) option" where
  "read_words st [] = Some st"
| "read_words st (w # ws) =
     (case read_word st w of None \<Rightarrow> None | Some st' \<Rightarrow> read_words st' ws)"

definition words_to_groups :: "string \<Rightarrow> (int \<times> int \<times> int \<times> int) option" where
  "words_to_groups s = read_words (0, 0, 0, 0) (split_on CHR '' '' s)"

definition words_to_number :: "string \<Rightarrow> int option" where
  "words_to_number s =
     (case words_to_groups s of
        None \<Rightarrow> None
      | Some (crore, lakh, thousand, ones_group) \<Rightarrow>
          Some (crore * 10000000 + lakh * 100000 + thousand * 1000 + ones_group))"

section \<open>Properties\<close>

subsection \<open>The decomposition into groups\<close>

lemma indian_groups_eq:
  "indian_groups n =
     (n div 10000000, n mod 10000000 div 100000,
      n mod 10000000 mod 100000 div 1000, n mod 10000000 mod 100000 mod 1000)"
  by (simp add: indian_groups_def Let_def)

subsection \<open>The fixed vectors of \<open>number_to_words\<close>\<close>

lemma number_to_words_0: "number_to_words 0 = Inr ''Zero''"
  by (simp add: number_to_words_def)

lemma number_to_words_29972:
  "number_to_words 29972 = Inr ''Twenty Nine Thousand Nine Hundred Seventy Two''"
  by (simp add: number_to_words_def indian_groups_def append_group_def getitem_def
      ones_def tens_def teens_def)

lemma number_to_words_ten_lakh: "number_to_words 1000000 = Inr ''Ten Lakh''"
  by (simp add: number_to_words_def indian_groups_def append_group_def getitem_def
      ones_def tens_def teens_def)

lemma number_to_words_one_crore: "number_to_words 10000000 = Inr ''One Crore''"
  by (simp add: number_to_words_def indian_groups_def append_group_def getitem_def
      ones_def tens_def teens_def)

text \<open>
  Claim C2. \<open>number_to_words\<close> returns the four fixed vectors: "Zero" for 0,
  "Twenty Nine Thousand Nine Hundred Seventy Two" for 29972, "Ten Lakh" for 1000000 and
  "One Crore" for 10000000.
\<close>

theorem number_to_words_vectors:
  "number_to_words 0 = Inr ''Zero'' \<and>
   number_to_words 29972 = Inr ''Twenty Nine Thousand Nine Hundred Seventy Two'' \<and>
   number_to_words 1000000 = Inr ''Ten Lakh'' \<and>
   number_to_words 10000000 = Inr ''One Crore''"
  using number_to_words_0 number_to_words_29972 number_to_words_ten_lakh
    number_to_words_one_crore
  by (intro conjI)

subsection \<open>Spacing of the words\<close>

lemma adjacent_spaces_append:
  "adjacent_spaces (xs @ ys) \<longleftrightarrow>
     adjacent_spaces xs \<or> adjacent_spaces ys \<or>
     (xs \<noteq> [] \<and> ys \<noteq> [] \<and> last xs = CHR '' '' \<and> hd ys = CHR '' '')"
proof (induction xs rule: adjacent_spaces.induct)
  case 1
  then show ?case by simp
next
  case (2 a)
  then show ?case by (cases ys) auto
next
  case (3 a b cs)
  then show ?case by auto
qed

lemma adjacent_spaces_iff:
  "adjacent_spaces s \<longleftrightarrow> (\<exists>u v. s = u @ ''  '' @ v)"
proof
  assume "adjacent_spaces s"
  then show "\<exists>u v. s = u @ ''  '' @ v"
  proof (induction s rule: adjacent_spaces.induct)
    case (3 a b cs)
    show ?case
    proof (cases "a = CHR '' '' \<and> b = CHR '' ''")
      case True
      then have "a # b # cs = [] @ ''  '' @ cs" by simp
      then show ?thesis by blast
    next
      case False
      with 3 obtain u v where "b # cs = u @ ''  '' @ v" by auto
      then have "a # b # cs = (a # u) @ ''  '' @ v" by simp
      then show ?thesis by blast
    qed
  qed simp_all
next
  assume "\<exists>u v. s = u @ ''  '' @ v"
  then obtain u v where "s = u @ ''  '' @ v" by blast
  then show "adjacent_spaces s"
    by (simp add: adjacent_spaces_append)
qed

lemma word_no_adjacent: "CHR '' '' \<notin> set w \<Longrightarrow> \<not> adjacent_spaces w"
  by (induction w rule: adjacent_spaces.induct) auto

lemma word_tidy: "word w \<Longrightarrow> tidy w"
proof -
  assume w: "word w"
  then have ne: "w \<noteq> []" and ns: "CHR '' '' \<notin> set w"
    by (simp_all add: word_def)
  from ne have "hd w \<in> set w" and "last w \<in> set w" by simp_all
  with ns have "hd w \<noteq> CHR '' ''" and "last w \<noteq> CHR '' ''" by auto
  with ne ns show "tidy w"
    by (simp add: tidy_def word_no_adjacent)
qed

lemma tidy_glue: "tidy a \<Longrightarrow> tidy b \<Longrightarrow> tidy (a @ CHR '' '' # b)"
  unfolding tidy_def
  by (cases b) (auto simp: adjacent_spaces_append)

lemma tidy_join: "ps \<noteq> [] \<Longrightarrow> \<forall>p \<in> set ps. tidy p \<Longrightarrow> tidy (join '' '' ps)"
proof (induction "'' ''" ps rule: join.induct)
  case 1
  then show ?case by simp
next
  case (2 p)
  then show ?case by simp
next
  case (3 p q ps)
  then show ?case using tidy_glue [of p "join '' '' (q # ps)"] by simp
qed


lemma word_suffix: "tidy w \<Longrightarrow> word v \<Longrightarrow> tidy (w @ CHR '' '' # v)"
  by (simp add: tidy_glue word_tidy)

lemma ones_word: "1 \<le> i \<Longrightarrow> i \<le> 9 \<Longrightarrow> \<exists>w. getitem ones i = Inr w \<and> word w"
proof -
  assume "1 \<le> i" "i \<le> 9"
  then have "i = 1 \<or> i = 2 \<or> i = 3 \<or> i = 4 \<or> i = 5 \<or> i = 6 \<or> i = 7 \<or> i = 8 \<or> i = 9"
    by arith
  then show ?thesis
    by (elim disjE) (simp_all add: getitem_def ones_def word_def)
qed

lemma tens_word: "2 \<le> i \<Longrightarrow> i \<le> 9 \<Longrightarrow> \<exists>w. getitem tens i = Inr w \<and> word w"
proof -
  assume "2 \<le> i" "i \<le> 9"
  then have "i = 2 \<or> i = 3 \<or> i = 4 \<or> i = 5 \<or> i = 6 \<or> i = 7 \<or> i = 8 \<or> i = 9"
    by arith
  then show ?thesis
    by (elim disjE) (simp_all add: getitem_def tens_def word_def)
qed

lemma teens_word: "0 \<le> i \<Longrightarrow> i \<le> 9 \<Longrightarrow> \<exists>w. getitem teens i = Inr w \<and> word w"
proof -
  assume "0 \<le> i" "i \<le> 9"
  then have "i = 0 \<or> i = 1 \<or> i = 2 \<or> i = 3 \<or> i = 4 \<or> i = 5 \<or> i = 6 \<or> i = 7 \<or> i = 8 \<or> i = 9"
    by arith
  then show ?thesis
    by (elim disjE) (simp_all add: getitem_def teens_def word_def)
qed

lemma below_hundred_tidy:
  assumes "1 \<le> n" and "n < 100"
  shows "\<exists>w. convert_below_thousand n = Inr w \<and> tidy w"
proof -
  consider "n < 10" | "10 \<le> n" "n < 20" | "20 \<le> n" "n mod 10 = 0" | "20 \<le> n" "n mod 10 \<noteq> 0"
    by linarith
  then show ?thesis
  proof cases
    case 1
    with assms ones_word [of n] show ?thesis
      by (auto simp: word_tidy)
  next
    case 2
    with teens_word [of "n - 10"] show ?thesis
      by (auto simp: word_tidy)
  next
    case 3
    have "2 \<le> n div 10" "n div 10 \<le> 9" using 3 assms by auto
    with tens_word [of "n div 10"] obtain t where "getitem tens (n div 10) = Inr t" "word t"
      by blast
    with 3 assms show ?thesis
      by (simp add: word_tidy)
  next
    case 4
    have "2 \<le> n div 10" "n div 10 \<le> 9" using 4 assms by auto
    with tens_word [of "n div 10"] obtain t where t: "getitem tens (n div 10) = Inr t" "word t"
      by blast
    have "1 \<le> n mod 10" "n mod 10 \<le> 9" using 4 by auto
    with ones_word [of "n mod 10"] obtain u where u: "getitem ones (n mod 10) = Inr u" "word u"
      by blast
    from t u 4 assms show ?thesis
      by (simp add: word_tidy tidy_glue)
  qed
qed

lemma below_thousand_tidy:
  assumes "1 \<le> n" and "n < 1000"
  shows "\<exists>w. convert_below_thousand n = Inr w \<and> tidy w"
proof (cases "n < 100")
  case True
  with assms below_hundred_tidy show ?thesis by blast
next
  case False
  have "1 \<le> n div 100" "n div 100 \<le> 9" using False assms by auto
  with ones_word [of "n div 100"] obtain h where h: "getitem ones (n div 100) = Inr h" "word h"
    by blast
  have hh: "tidy (h @ '' Hundred'')"
    using word_suffix [of h "''Hundred''"] h by (simp add: word_tidy word_def)
  show ?thesis
  proof (cases "n mod 100 = 0")
    case True
    with False h hh show ?thesis by simp
  next
    case nz: False
    then have "1 \<le> n mod 100" "n mod 100 < 100" by auto
    with below_hundred_tidy [of "n mod 100"] obtain r
      where r: "convert_below_thousand (n mod 100) = Inr r" "tidy r" by blast
    then have "r \<noteq> []" by (simp add: tidy_def)
    with False h r tidy_glue [OF hh r(2)] show ?thesis
      by (subst convert_below_thousand.simps) simp
  qed
qed

lemma append_group_tidy:
  assumes "0 \<le> g" and "g < 1000" and "\<forall>p \<in> set result. tidy p" and "word suffix"
  shows "\<exists>r. append_group g ('' '' @ suffix) result = Inr r \<and> (\<forall>p \<in> set r. tidy p) \<and>
             (r = [] \<longleftrightarrow> result = [] \<and> g = 0)"
proof (cases "g = 0")
  case True
  with assms show ?thesis by (simp add: append_group_def)
next
  case False
  with assms have "1 \<le> g" by simp
  with below_thousand_tidy [of g] assms obtain w
    where w: "convert_below_thousand g = Inr w" "tidy w" by blast
  from w(2) assms(4) have "tidy (w @ CHR '' '' # suffix)" by (rule word_suffix)
  with False w assms(3) show ?thesis
    by (simp add: append_group_def)
qed

lemma append_last_tidy:
  assumes "0 \<le> g" and "g < 1000" and "\<forall>p \<in> set result. tidy p"
  shows "\<exists>r. append_group g [] result = Inr r \<and> (\<forall>p \<in> set r. tidy p) \<and>
             (r = [] \<longleftrightarrow> result = [] \<and> g = 0)"
proof (cases "g = 0")
  case True
  with assms show ?thesis by (simp add: append_group_def)
next
  case False
  with assms have "1 \<le> g" by simp
  with below_thousand_tidy [of g] assms obtain w
    where w: "convert_below_thousand g = Inr w" "tidy w" by blast
  with False assms(3) show ?thesis
    by (simp add: append_group_def)
qed

lemma indian_groups_bounds:
  assumes "1 \<le> n" and "n \<le> 99999999"
  shows "\<exists>c l t r. indian_groups n = (c, l, t, r) \<and> 0 \<le> c \<and> c < 1000 \<and> 0 \<le> l \<and> l < 1000 \<and>
           0 \<le> t \<and> t < 1000 \<and> 0 \<le> r \<and> r < 1000 \<and> \<not> (c = 0 \<and> l = 0 \<and> t = 0 \<and> r = 0)"
proof -
  define r1 where "r1 = n mod 10000000"
  define r2 where "r2 = r1 mod 100000"
  have g: "indian_groups n = (n div 10000000, r1 div 100000, r2 div 1000, r2 mod 1000)"
    unfolding indian_groups_eq r1_def r2_def by simp
  have b1: "0 \<le> r1" "r1 < 10000000" by (simp_all add: r1_def)
  have b2: "0 \<le> r2" "r2 < 100000" by (simp_all add: r2_def)
  have c: "0 \<le> n div 10000000" "n div 10000000 < 1000" using assms by simp_all
  have l: "0 \<le> r1 div 100000" "r1 div 100000 < 1000" using b1 by simp_all
  have t: "0 \<le> r2 div 1000" "r2 div 1000 < 1000" using b2 by simp_all
  have r: "0 \<le> r2 mod 1000" "r2 mod 1000 < 1000" by simp_all
  have "n = (n div 10000000) * 10000000 + (r1 div 100000) * 100000 + (r2 div 1000) * 1000 + r2 mod 1000"
    using div_mult_mod_eq [of n 10000000] div_mult_mod_eq [of r1 100000] div_mult_mod_eq [of r2 1000]
    unfolding r1_def [symmetric] r2_def [symmetric] by linarith
  with assms(1) have nz: "\<not> (n div 10000000 = 0 \<and> r1 div 100000 = 0 \<and> r2 div 1000 = 0 \<and> r2 mod 1000 = 0)"
    by auto
  from g c l t r nz show ?thesis by blast
qed

lemma number_to_words_tidy:
  assumes "1 \<le> n" and "n \<le> 99999999"
  shows "\<exists>s. number_to_words n = Inr s \<and> tidy s"
proof -
  from indian_groups_bounds [OF assms] obtain c l t r
    where g: "indian_groups n = (c, l, t, r)"
      and c: "0 \<le> c" "c < 1000" and l: "0 \<le> l" "l < 1000"
      and t: "0 \<le> t" "t < 1000" and r: "0 \<le> r" "r < 1000"
      and nz: "\<not> (c = 0 \<and> l = 0 \<and> t = 0 \<and> r = 0)"
    by blast
  have wc: "word ''Crore''" and wl: "word ''Lakh''" and wt: "word ''Thousand''"
    by (simp_all add: word_def)
  from append_group_tidy [OF c _ wc, of "[]"] obtain r1
    where r1: "append_group c '' Crore'' [] = Inr r1" "\<forall>p \<in> set r1. tidy p" "r1 = [] \<longleftrightarrow> c = 0"
    by auto
  from append_group_tidy [OF l r1(2) wl] obtain r2
    where r2: "append_group l '' Lakh'' r1 = Inr r2" "\<forall>p \<in> set r2. tidy p"
      "r2 = [] \<longleftrightarrow> r1 = [] \<and> l = 0"
    by auto
  from append_group_tidy [OF t r2(2) wt] obtain r3
    where r3: "append_group t '' Thousand'' r2 = Inr r3" "\<forall>p \<in> set r3. tidy p"
      "r3 = [] \<longleftrightarrow> r2 = [] \<and> t = 0"
    by auto
  from append_last_tidy [OF r r3(2)] obtain r4
    where r4: "append_group r [] r3 = Inr r4" "\<forall>p \<in> set r4. tidy p"
      "r4 = [] \<longleftrightarrow> r3 = [] \<and> r = 0"
    by auto
  from nz r1(3) r2(3) r3(3) r4(3) have "r4 \<noteq> []" by blast
  then have "tidy (join '' '' r4)" using r4(2) by (rule tidy_join)
  moreover have "number_to_words n = Inr (join '' '' r4)"
    using assms(1) g r1(1) r2(1) r3(1) r4(1) by (simp add: number_to_words_def)
  ultimately show ?thesis by blast
qed

lemma below_thousand_empty:
  assumes "0 \<le> k" and "k < 1000"
  shows "convert_below_thousand k = Inr [] \<longleftrightarrow> k = 0"
proof (cases "k = 0")
  case True
  then show ?thesis by simp
next
  case False
  with assms have "1 \<le> k" by simp
  with below_thousand_tidy [of k] assms obtain w
    where "convert_below_thousand k = Inr w" "tidy w" by blast
  with False show ?thesis by (auto simp: tidy_def)
qed

text \<open>
  Claim C10. For every integer \<open>n\<close> from 1 to 99999999, \<open>number_to_words n\<close> returns a string
  that is not empty, has no leading space, no trailing space and no two consecutive
  spaces; and on its domain 0 to 999, \<open>convert_below_thousand\<close> returns the empty string
  for 0 only.
\<close>

theorem number_to_words_spacing:
  assumes "1 \<le> n" and "n \<le> 99999999" and "0 \<le> k" and "k < 1000"
  shows "(\<exists>s. number_to_words n = Inr s \<and> s \<noteq> [] \<and> hd s \<noteq> CHR '' '' \<and> last s \<noteq> CHR '' '' \<and>
              (\<forall>u v. s \<noteq> u @ ''  '' @ v)) \<and>
         (convert_below_thousand k = Inr [] \<longleftrightarrow> k = 0)"
proof -
  from number_to_words_tidy [OF assms(1,2)] obtain s
    where s: "number_to_words n = Inr s" "tidy s" by blast
  from s(2) have "s \<noteq> []" "hd s \<noteq> CHR '' ''" "last s \<noteq> CHR '' ''" "\<not> adjacent_spaces s"
    by (simp_all add: tidy_def)
  moreover from this(4) have "\<forall>u v. s \<noteq> u @ ''  '' @ v"
    unfolding adjacent_spaces_iff by blast
  ultimately show ?thesis
    using s(1) below_thousand_empty [OF assms(3,4)] by blast
qed

theorem number_to_words_spacing_witness:
  "(1::int) \<le> 29972 \<and> (29972::int) \<le> 99999999 \<and> (0::int) \<le> 0 \<and> (0::int) < 1000 \<and>
   number_to_words 29972 = Inr ''Twenty Nine Thousand Nine Hundred Seventy Two'' \<and>
   (\<exists>s. number_to_words 29972 = Inr s \<and> s \<noteq> [] \<and> hd s \<noteq> CHR '' '' \<and> last s \<noteq> CHR '' '' \<and>
        (\<forall>u v. s \<noteq> u @ ''  '' @ v)) \<and>
   (convert_below_thousand 0 = Inr [] \<longleftrightarrow> (0::int) = 0)"
proof -
  have v: "number_to_words 29972 = Inr ''Twenty Nine Thousand Nine Hundred Seventy Two''"
    by (simp add: number_to_words_def indian_groups_def append_group_def getitem_def
        ones_def tens_def teens_def)
  show ?thesis
    using number_to_words_spacing [of 29972 0] v by simp
qed

subsection \<open>The groups of the output reconstruct the number\<close>

lemma split_on_word: "c \<notin> set w \<Longrightarrow> split_on c w = [w]"
  by (induction w) auto

lemma split_on_append: "c \<notin> set a \<Longrightarrow> split_on c (a @ c # b) = a # split_on c b"
  by (induction a) auto

lemma join_append:
  "a \<noteq> [] \<Longrightarrow> b \<noteq> [] \<Longrightarrow> join sep (a @ b) = join sep a @ sep @ join sep b"
proof (induction sep a rule: join.induct)
  case (1 sep)
  then show ?case by simp
next
  case (2 sep p)
  then show ?case by (cases b) simp_all
next
  case (3 sep p q ps)
  then show ?case by simp
qed

lemma split_join:
  "ws \<noteq> [] \<Longrightarrow> list_all word ws \<Longrightarrow> split_on CHR '' '' (join '' '' ws) = ws"
proof (induction "'' ''" ws rule: join.induct)
  case 1
  then show ?case by simp
next
  case (2 p)
  then show ?case by (simp add: word_def split_on_word)
next
  case (3 p q ps)
  then show ?case by (simp add: word_def split_on_append)
qed

lemma read_words_append:
  "read_words st (a @ b) = (case read_words st a of None \<Rightarrow> None | Some st' \<Rightarrow> read_words st' b)"
  by (induction a arbitrary: st) (auto split: option.splits)

lemma ones_reads:
  assumes "1 \<le> i" and "i \<le> 9"
  shows "\<exists>w. getitem ones i = Inr w \<and> word w \<and>
             (\<forall>c l t u. read_word (c, l, t, u) w = Some (c, l, t, u + i))"
proof -
  from assms have "i = 1 \<or> i = 2 \<or> i = 3 \<or> i = 4 \<or> i = 5 \<or> i = 6 \<or> i = 7 \<or> i = 8 \<or> i = 9"
    by arith
  then show ?thesis
    by (elim disjE) (simp_all add: getitem_def ones_def word_def word_value_def)
qed

lemma tens_reads:
  assumes "2 \<le> i" and "i \<le> 9"
  shows "\<exists>w. getitem tens i = Inr w \<and> word w \<and>
             (\<forall>c l t u. read_word (c, l, t, u) w = Some (c, l, t, u + 10 * i))"
proof -
  from assms have "i = 2 \<or> i = 3 \<or> i = 4 \<or> i = 5 \<or> i = 6 \<or> i = 7 \<or> i = 8 \<or> i = 9"
    by arith
  then show ?thesis
    by (elim disjE) (simp_all add: getitem_def tens_def word_def word_value_def)
qed

lemma teens_reads:
  assumes "0 \<le> i" and "i \<le> 9"
  shows "\<exists>w. getitem teens i = Inr w \<and> word w \<and>
             (\<forall>c l t u. read_word (c, l, t, u) w = Some (c, l, t, u + 10 + i))"
proof -
  from assms have "i = 0 \<or> i = 1 \<or> i = 2 \<or> i = 3 \<or> i = 4 \<or> i = 5 \<or> i = 6 \<or> i = 7 \<or> i = 8 \<or> i = 9"
    by arith
  then show ?thesis
    by (elim disjE) (simp_all add: getitem_def teens_def word_def word_value_def)
qed

lemma below_hundred_reads:
  assumes "1 \<le> n" and "n < 100"
  shows "\<exists>ws. ws \<noteq> [] \<and> list_all word ws \<and> convert_below_thousand n = Inr (join '' '' ws) \<and>
              (\<forall>c l t u. read_words (c, l, t, u) ws = Some (c, l, t, u + n))"
proof -
  consider "n < 10" | "10 \<le> n" "n < 20" | "20 \<le> n" "n mod 10 = 0" | "20 \<le> n" "n mod 10 \<noteq> 0"
    by linarith
  then show ?thesis
  proof cases
    case 1
    with assms ones_reads [of n] obtain w where w: "getitem ones n = Inr w" "word w"
      "\<forall>c l t u. read_word (c, l, t, u) w = Some (c, l, t, u + n)" by auto
    with 1 assms show ?thesis
      by (intro exI [of _ "[w]"]) simp
  next
    case 2
    with teens_reads [of "n - 10"] obtain w where w: "getitem teens (n - 10) = Inr w" "word w"
      "\<forall>c l t u. read_word (c, l, t, u) w = Some (c, l, t, u + 10 + (n - 10))" by auto
    with 2 assms show ?thesis
      by (intro exI [of _ "[w]"]) simp
  next
    case 3
    have "2 \<le> n div 10" "n div 10 \<le> 9" using 3 assms by auto
    with tens_reads [of "n div 10"] obtain w where w: "getitem tens (n div 10) = Inr w" "word w"
      "\<forall>c l t u. read_word (c, l, t, u) w = Some (c, l, t, u + 10 * (n div 10))" by blast
    have "10 * (n div 10) = n" using 3 by auto
    with w 3 assms show ?thesis
      by (intro exI [of _ "[w]"]) simp
  next
    case 4
    have "2 \<le> n div 10" "n div 10 \<le> 9" using 4 assms by auto
    with tens_reads [of "n div 10"] obtain w where w: "getitem tens (n div 10) = Inr w" "word w"
      "\<forall>c l t u. read_word (c, l, t, u) w = Some (c, l, t, u + 10 * (n div 10))" by blast
    have "1 \<le> n mod 10" "n mod 10 \<le> 9" using 4 by auto
    with ones_reads [of "n mod 10"] obtain v where v: "getitem ones (n mod 10) = Inr v" "word v"
      "\<forall>c l t u. read_word (c, l, t, u) v = Some (c, l, t, u + n mod 10)" by blast
    have "10 * (n div 10) + n mod 10 = n" by simp
    then have e: "\<And>u. u + 10 * (n div 10) + n mod 10 = u + n" by linarith
    from w v 4 assms e show ?thesis
      by (intro exI [of _ "[w, v]"]) simp
  qed
qed

lemma below_thousand_reads:
  assumes "1 \<le> n" and "n < 1000"
  shows "\<exists>ws. ws \<noteq> [] \<and> list_all word ws \<and> convert_below_thousand n = Inr (join '' '' ws) \<and>
              (\<forall>c l t. read_words (c, l, t, 0) ws = Some (c, l, t, n))"
proof (cases "n < 100")
  case True
  with assms below_hundred_reads [of n] show ?thesis by auto
next
  case False
  have "1 \<le> n div 100" "n div 100 \<le> 9" using False assms by auto
  with ones_reads [of "n div 100"] obtain h where h: "getitem ones (n div 100) = Inr h" "word h"
    "\<forall>c l t u. read_word (c, l, t, u) h = Some (c, l, t, u + n div 100)" by blast
  have hw: "word ''Hundred''" by (simp add: word_def)
  show ?thesis
  proof (cases "n mod 100 = 0")
    case True
    then have "n div 100 * 100 = n" by auto
    with True False h hw show ?thesis
      by (intro exI [of _ "[h, ''Hundred'']"]) simp
  next
    case nz: False
    then have "1 \<le> n mod 100" "n mod 100 < 100" by auto
    with below_hundred_reads [of "n mod 100"] obtain ws
      where ws: "ws \<noteq> []" "list_all word ws"
        "convert_below_thousand (n mod 100) = Inr (join '' '' ws)"
        "\<forall>c l t u. read_words (c, l, t, u) ws = Some (c, l, t, u + n mod 100)" by blast
    have ne: "join '' '' ws \<noteq> []"
    proof (cases ws)
      case Nil
      with ws(1) show ?thesis by simp
    next
      case (Cons p ps)
      with ws(2) have "p \<noteq> []" by (simp add: word_def)
      with Cons show ?thesis by (cases ps) simp_all
    qed
    have j: "join '' '' ([h, ''Hundred''] @ ws) = (h @ '' Hundred'') @ '' '' @ join '' '' ws"
      using ws(1) by (subst join_append) simp_all
    have "n div 100 * 100 + n mod 100 = n" by simp
    with False h hw ws ne j show ?thesis
      by (intro exI [of _ "[h, ''Hundred''] @ ws"])
        (subst convert_below_thousand.simps, simp del: append.simps add: read_words_append)
  qed
qed


lemma read_words_single: "read_words st [w] = read_word st w"
  by (cases "read_word st w") simp_all

lemma join_extend:
  assumes "(result = [] \<and> toks = []) \<or>
           (result \<noteq> [] \<and> toks \<noteq> [] \<and> join sep result = join sep toks)"
    and "ts \<noteq> []"
  shows "result @ [join sep ts] \<noteq> [] \<and> toks @ ts \<noteq> [] \<and>
         join sep (result @ [join sep ts]) = join sep (toks @ ts)"
proof (cases "result = []")
  case True
  with assms show ?thesis by auto
next
  case False
  with assms have "toks \<noteq> []" and "join sep result = join sep toks" by auto
  with False assms(2) show ?thesis by (simp add: join_append)
qed

lemma append_group_reads:
  assumes "0 \<le> g" and "g < 1000" and "word sfx"
    and "(result = [] \<and> toks = []) \<or>
         (result \<noteq> [] \<and> toks \<noteq> [] \<and> join '' '' result = join '' '' toks)"
  shows "\<exists>r ts. append_group g ('' '' @ sfx) result = Inr r \<and> list_all word ts \<and>
           ((r = [] \<and> toks @ ts = []) \<or>
            (r \<noteq> [] \<and> toks @ ts \<noteq> [] \<and> join '' '' r = join '' '' (toks @ ts))) \<and>
           (if g = 0 then ts = []
            else (\<forall>c l t. read_words (c, l, t, 0) ts = read_word (c, l, t, g) sfx))"
proof (cases "g = 0")
  case True
  with assms(4) show ?thesis
    by (intro exI [of _ result] exI [of _ "[]"]) (simp add: append_group_def)
next
  case False
  with assms have "1 \<le> g" by simp
  with below_thousand_reads [of g] assms(2) obtain ws
    where ws: "ws \<noteq> []" "list_all word ws" "convert_below_thousand g = Inr (join '' '' ws)"
      "\<forall>c l t. read_words (c, l, t, 0) ws = Some (c, l, t, g)" by blast
  have j: "join '' '' ws @ '' '' @ sfx = join '' '' (ws @ [sfx])"
    using ws(1) by (simp add: join_append)
  have a: "append_group g ('' '' @ sfx) result = Inr (result @ [join '' '' (ws @ [sfx])])"
    using False ws(3) j by (simp add: append_group_def)
  have e: "result @ [join '' '' (ws @ [sfx])] \<noteq> [] \<and> toks @ (ws @ [sfx]) \<noteq> [] \<and>
           join '' '' (result @ [join '' '' (ws @ [sfx])]) = join '' '' (toks @ (ws @ [sfx]))"
    using assms(4) by (rule join_extend) simp
  have w: "list_all word (ws @ [sfx])" using ws(2) assms(3) by simp
  have r: "\<forall>c l t. read_words (c, l, t, 0) (ws @ [sfx]) = read_word (c, l, t, g) sfx"
    using ws(4) by (simp add: read_words_append read_words_single del: read_word.simps read_words.simps)
  from a e w r False show ?thesis
    by (intro exI [of _ "result @ [join '' '' (ws @ [sfx])]"] exI [of _ "ws @ [sfx]"]) simp
qed

lemma append_last_reads:
  assumes "0 \<le> g" and "g < 1000"
    and "(result = [] \<and> toks = []) \<or>
         (result \<noteq> [] \<and> toks \<noteq> [] \<and> join '' '' result = join '' '' toks)"
  shows "\<exists>r ts. append_group g [] result = Inr r \<and> list_all word ts \<and>
           ((r = [] \<and> toks @ ts = []) \<or>
            (r \<noteq> [] \<and> toks @ ts \<noteq> [] \<and> join '' '' r = join '' '' (toks @ ts))) \<and>
           (if g = 0 then ts = []
            else (\<forall>c l t. read_words (c, l, t, 0) ts = Some (c, l, t, g)))"
proof (cases "g = 0")
  case True
  with assms(3) show ?thesis
    by (intro exI [of _ result] exI [of _ "[]"]) (simp add: append_group_def)
next
  case False
  with assms have "1 \<le> g" by simp
  with below_thousand_reads [of g] assms(2) obtain ws
    where ws: "ws \<noteq> []" "list_all word ws" "convert_below_thousand g = Inr (join '' '' ws)"
      "\<forall>c l t. read_words (c, l, t, 0) ws = Some (c, l, t, g)" by blast
  have a: "append_group g [] result = Inr (result @ [join '' '' ws])"
    using False ws(3) by (simp add: append_group_def)
  have e: "result @ [join '' '' ws] \<noteq> [] \<and> toks @ ws \<noteq> [] \<and>
           join '' '' (result @ [join '' '' ws]) = join '' '' (toks @ ws)"
    using assms(3) ws(1) by (rule join_extend)
  from a e ws(2,4) False show ?thesis
    by (intro exI [of _ "result @ [join '' '' ws]"] exI [of _ ws]) simp
qed

lemma number_to_words_reads:
  assumes "indian_groups n = (c, l, t, r)"
    and "0 \<le> c" "c < 1000" "0 \<le> l" "l < 1000" "0 \<le> t" "t < 1000" "0 \<le> r" "r < 1000"
    and "\<not> (c = 0 \<and> l = 0 \<and> t = 0 \<and> r = 0)"
  shows "\<exists>s. number_to_words n = Inr s \<and> words_to_groups s = Some (c, l, t, r)"
proof -
  have wc: "word ''Crore''" and wl: "word ''Lakh''" and wt: "word ''Thousand''"
    by (simp_all add: word_def)
  from append_group_reads [OF assms(2,3) wc, of "[]" "[]"] obtain r1 ts1
    where r1: "append_group c '' Crore'' [] = Inr r1" "list_all word ts1"
      "(r1 = [] \<and> ts1 = []) \<or> (r1 \<noteq> [] \<and> ts1 \<noteq> [] \<and> join '' '' r1 = join '' '' ts1)"
      "if c = 0 then ts1 = []
       else (\<forall>x y z. read_words (x, y, z, 0) ts1 = read_word (x, y, z, c) ''Crore'')"
    by auto
  from append_group_reads [OF assms(4,5) wl r1(3)] obtain r2 ts2
    where r2: "append_group l '' Lakh'' r1 = Inr r2" "list_all word ts2"
      "(r2 = [] \<and> ts1 @ ts2 = []) \<or>
       (r2 \<noteq> [] \<and> ts1 @ ts2 \<noteq> [] \<and> join '' '' r2 = join '' '' (ts1 @ ts2))"
      "if l = 0 then ts2 = []
       else (\<forall>x y z. read_words (x, y, z, 0) ts2 = read_word (x, y, z, l) ''Lakh'')"
    by auto
  from append_group_reads [OF assms(6,7) wt r2(3)] obtain r3 ts3
    where r3: "append_group t '' Thousand'' r2 = Inr r3" "list_all word ts3"
      "(r3 = [] \<and> (ts1 @ ts2) @ ts3 = []) \<or>
       (r3 \<noteq> [] \<and> (ts1 @ ts2) @ ts3 \<noteq> [] \<and> join '' '' r3 = join '' '' ((ts1 @ ts2) @ ts3))"
      "if t = 0 then ts3 = []
       else (\<forall>x y z. read_words (x, y, z, 0) ts3 = read_word (x, y, z, t) ''Thousand'')"
    by auto
  from append_last_reads [OF assms(8,9) r3(3)] obtain r4 ts4
    where r4: "append_group r [] r3 = Inr r4" "list_all word ts4"
      "(r4 = [] \<and> ((ts1 @ ts2) @ ts3) @ ts4 = []) \<or>
       (r4 \<noteq> [] \<and> ((ts1 @ ts2) @ ts3) @ ts4 \<noteq> [] \<and>
        join '' '' r4 = join '' '' (((ts1 @ ts2) @ ts3) @ ts4))"
      "if r = 0 then ts4 = []
       else (\<forall>x y z. read_words (x, y, z, 0) ts4 = Some (x, y, z, r))"
    by auto
  define toks where "toks = ((ts1 @ ts2) @ ts3) @ ts4"
  have s1: "read_words (0, 0, 0, 0) ts1 = Some (c, 0, 0, 0)"
    using r1(4) by (cases "c = 0") simp_all
  have s2: "read_words (c, 0, 0, 0) ts2 = Some (c, l, 0, 0)"
    using r2(4) by (cases "l = 0") simp_all
  have s3: "read_words (c, l, 0, 0) ts3 = Some (c, l, t, 0)"
    using r3(4) by (cases "t = 0") simp_all
  have s4: "read_words (c, l, t, 0) ts4 = Some (c, l, t, r)"
    using r4(4) by (cases "r = 0") simp_all
  have rd: "read_words (0, 0, 0, 0) toks = Some (c, l, t, r)"
    unfolding toks_def by (simp add: read_words_append s1 s2 s3 s4)
  have nz: "n \<noteq> 0"
  proof
    assume "n = 0"
    then have "indian_groups n = (0, 0, 0, 0)" by (simp add: indian_groups_def)
    with assms(1,10) show False by simp
  qed
  have ne: "toks \<noteq> []"
  proof
    assume "toks = []"
    then have "ts1 = []" "ts2 = []" "ts3 = []" "ts4 = []" by (simp_all add: toks_def)
    with rd s1 s2 s3 s4 assms(10) show False by simp
  qed
  have j: "join '' '' r4 = join '' '' toks"
    using r4(3) ne unfolding toks_def by blast
  have w: "list_all word toks" using r1(2) r2(2) r3(2) r4(2) by (simp add: toks_def)
  have "number_to_words n = Inr (join '' '' toks)"
    using nz assms(1) r1(1) r2(1) r3(1) r4(1) j by (simp add: number_to_words_def)
  moreover have "words_to_groups (join '' '' toks) = Some (c, l, t, r)"
    unfolding words_to_groups_def using split_join [OF ne w] rd by simp
  ultimately show ?thesis by blast
qed

text \<open>
  Claim C1. For every integer \<open>n\<close> from 1 to 99999999, \<open>number_to_words\<close> decomposes \<open>n\<close>
  into \<open>crore = n div 10000000\<close>, \<open>lakh\<close> the quotient of the remainder by 100000,
  \<open>thousand\<close> the quotient of the next remainder by 1000 and \<open>ones_group\<close> the last
  remainder; the groups lie in 0..9, 0..99, 0..99 and 0..999 and satisfy
  \<open>crore * 10000000 + lakh * 100000 + thousand * 1000 + ones_group = n\<close>; and the string
  returned, read back by the reference reader, yields exactly these four groups and
  hence \<open>n\<close>.
\<close>

theorem number_to_words_groups_reconstruct:
  assumes "1 \<le> n" and "n \<le> 99999999"
  shows "\<exists>crore lakh thousand ones_group s.
           indian_groups n = (crore, lakh, thousand, ones_group) \<and>
           crore = n div 10000000 \<and>
           lakh = n mod 10000000 div 100000 \<and>
           thousand = n mod 10000000 mod 100000 div 1000 \<and>
           ones_group = n mod 10000000 mod 100000 mod 1000 \<and>
           0 \<le> crore \<and> crore \<le> 9 \<and> 0 \<le> lakh \<and> lakh \<le> 99 \<and>
           0 \<le> thousand \<and> thousand \<le> 99 \<and> 0 \<le> ones_group \<and> ones_group \<le> 999 \<and>
           crore * 10000000 + lakh * 100000 + thousand * 1000 + ones_group = n \<and>
           number_to_words n = Inr s \<and>
           words_to_groups s = Some (crore, lakh, thousand, ones_group) \<and>
           words_to_number s = Some n"
proof -
  define r1 where "r1 = n mod 10000000"
  define r2 where "r2 = r1 mod 100000"
  define c where "c = n div 10000000"
  define l where "l = r1 div 100000"
  define t where "t = r2 div 1000"
  define r where "r = r2 mod 1000"
  have g: "indian_groups n = (c, l, t, r)"
    unfolding indian_groups_eq c_def l_def t_def r_def r1_def r2_def by simp
  have b1: "0 \<le> r1" "r1 < 10000000" by (simp_all add: r1_def)
  have b2: "0 \<le> r2" "r2 < 100000" by (simp_all add: r2_def)
  have bc: "0 \<le> c" "c \<le> 9" using assms by (simp_all add: c_def)
  have bl: "0 \<le> l" "l \<le> 99" using b1 by (simp_all add: l_def)
  have bt: "0 \<le> t" "t \<le> 99" using b2 by (simp_all add: t_def)
  have br: "0 \<le> r" "r \<le> 999" by (simp_all add: r_def)
  have "t * 1000 + r = r2" unfolding t_def r_def by (rule div_mult_mod_eq)
  moreover have "l * 100000 + r2 = r1" unfolding l_def r2_def by (rule div_mult_mod_eq)
  moreover have "c * 10000000 + r1 = n" unfolding c_def r1_def by (rule div_mult_mod_eq)
  ultimately have sum: "c * 10000000 + l * 100000 + t * 1000 + r = n" by linarith
  with assms(1) have nz: "\<not> (c = 0 \<and> l = 0 \<and> t = 0 \<and> r = 0)" by auto
  from number_to_words_reads [OF g _ _ _ _ _ _ _ _ nz] bc bl bt br obtain s
    where s: "number_to_words n = Inr s" "words_to_groups s = Some (c, l, t, r)" by auto
  have num: "words_to_number s = Some n" using s(2) sum by (simp add: words_to_number_def)
  have d: "c = n div 10000000" "l = n mod 10000000 div 100000"
    "t = n mod 10000000 mod 100000 div 1000" "r = n mod 10000000 mod 100000 mod 1000"
    by (simp_all add: c_def l_def t_def r_def r1_def r2_def)
  from g d bc bl bt br sum s num show ?thesis by blast
qed

theorem number_to_words_groups_reconstruct_witness:
  "(1::int) \<le> 29972 \<and> (29972::int) \<le> 99999999 \<and>
   indian_groups 29972 = (0, 0, 29, 972) \<and>
   number_to_words 29972 = Inr ''Twenty Nine Thousand Nine Hundred Seventy Two'' \<and>
   words_to_groups ''Twenty Nine Thousand Nine Hundred Seventy Two'' = Some (0, 0, 29, 972) \<and>
   words_to_number ''Twenty Nine Thousand Nine Hundred Seventy Two'' = Some 29972"
proof -
  have v: "number_to_words 29972 = Inr ''Twenty Nine Thousand Nine Hundred Seventy Two''"
    by (simp add: number_to_words_def indian_groups_def append_group_def getitem_def
        ones_def tens_def teens_def)
  have g: "indian_groups 29972 = (0, 0, 29, 972)"
    by (simp add: indian_groups_def)
  show ?thesis
    using number_to_words_groups_reconstruct [of 29972] v g by auto
qed

subsection \<open>Rounding to binary64\<close>

lemma pow2_less_cancel: "(2::rat) powi k < 2 powi j \<Longrightarrow> k < j"
proof (rule ccontr)
  assume lt: "(2::rat) powi k < 2 powi j" and "\<not> k < j"
  then have "j \<le> k" by simp
  then have "(2::rat) powi j \<le> 2 powi k" by (rule power_int_increasing) simp
  with lt show False by simp
qed

lemma ilog2_ge1:
  assumes "1 \<le> q"
  shows "2 powi (ilog2 q) \<le> q \<and> q < 2 powi (ilog2 q + 1)"
proof -
  define n where "n = nat \<lfloor>q\<rfloor>"
  define a where "a = floorlog 2 n"
  have n: "0 < n" using assms by (simp add: n_def)
  from floorlog_bounds [OF n, of 2] have b: "2 ^ (a - 1) \<le> n" "n < 2 ^ a"
    by (simp_all add: a_def)
  have a: "1 \<le> a" using b(2) n by (cases a) auto
  have il: "ilog2 q = int (a - 1)" using assms a by (simp add: ilog2_def a_def n_def)
  have nq: "rat_of_nat n \<le> q" using assms by (simp add: n_def)
  have "rat_of_nat (2 ^ (a - 1)) \<le> rat_of_nat n" using b(1) of_nat_le_iff by blast
  then have "rat_of_nat (2 ^ (a - 1)) \<le> q" using nq by (rule order_trans)
  then have lo: "2 powi (ilog2 q) \<le> q" unfolding il by simp
  have "q < of_int (\<lfloor>q\<rfloor> + 1)" by linarith
  also have "\<dots> = rat_of_nat (n + 1)" using assms by (simp add: n_def)
  also have "\<dots> \<le> rat_of_nat (2 ^ a)" using b(2) of_nat_le_iff by (metis Suc_eq_plus1 Suc_leI)
  finally have "q < 2 ^ a" by simp
  moreover have "ilog2 q + 1 = int a" using il a by simp
  ultimately have hi: "q < 2 powi (ilog2 q + 1)" by simp
  from lo hi show ?thesis by blast
qed

lemma ilog2_lt1:
  assumes "0 < q" and "q < 1"
  shows "2 powi (ilog2 q) \<le> q \<and> q < 2 powi (ilog2 q + 1)"
proof -
  define c where "c = \<lceil>1 / q\<rceil>"
  define n where "n = nat (c - 1)"
  define k where "k = floorlog 2 n"
  have iq: "1 < 1 / q" using assms by simp
  then have c2: "2 \<le> c" unfolding c_def by linarith
  then have n: "0 < n" by (simp add: n_def)
  from floorlog_bounds [OF n, of 2] have b: "2 ^ (k - 1) \<le> n" "n < 2 ^ k"
    by (simp_all add: k_def)
  have k: "1 \<le> k" using b(2) n by (cases k) auto
  have il: "ilog2 q = - int k" using assms by (simp add: ilog2_def k_def n_def c_def)
  have nc: "int n = c - 1" using c2 by (simp add: n_def)
  have "1 / q \<le> of_int c" unfolding c_def by (rule le_of_int_ceiling)
  also have "c \<le> 2 ^ k" using b(2) nc by (metis add.commute int_ops(3) less_iff_succ_less_eq of_nat_less_iff of_nat_power zle_add1_eq_le zless_add1_eq diff_add_cancel of_nat_numeral)
  finally have "1 / q \<le> 2 ^ k" by simp
  then have "1 / 2 ^ k \<le> q" using assms(1)
    by (simp add: field_simps)
  then have lo: "2 powi (ilog2 q) \<le> q" unfolding il
    by (simp add: power_int_minus field_simps)
  have "rat_of_int (2 ^ (k - 1)) \<le> of_int (c - 1)" using b(1) nc
    by (metis of_int_le_iff of_nat_le_iff of_nat_numeral of_nat_power)
  also have "\<dots> < 1 / q" unfolding c_def by linarith
  finally have "2 ^ (k - 1) < 1 / q" by simp
  then have "q < 1 / 2 ^ (k - 1)" using assms(1)
    by (simp add: field_simps)
  moreover have "ilog2 q + 1 = - int (k - 1)" using il k by simp
  ultimately have hi: "q < 2 powi (ilog2 q + 1)"
    by (simp add: power_int_minus field_simps)
  from lo hi show ?thesis by blast
qed

lemma ilog2_bounds:
  "0 < q \<Longrightarrow> 2 powi (ilog2 q) \<le> q \<and> q < 2 powi (ilog2 q + 1)"
  using ilog2_ge1 [of q] ilog2_lt1 [of q] by (cases "1 \<le> q") auto

lemma ilog2_unique:
  assumes "0 < q" and "2 powi k \<le> q" and "q < 2 powi (k + 1)"
  shows "ilog2 q = k"
proof -
  from ilog2_bounds [OF assms(1)] have b: "2 powi (ilog2 q) \<le> q" "q < 2 powi (ilog2 q + 1)"
    by simp_all
  have "(2::rat) powi k < 2 powi (ilog2 q + 1)" using assms(2) b(2) by simp
  then have "k < ilog2 q + 1" by (rule pow2_less_cancel)
  moreover have "(2::rat) powi (ilog2 q) < 2 powi (k + 1)" using assms(3) b(1) by simp
  then have "ilog2 q < k + 1" by (rule pow2_less_cancel)
  ultimately show ?thesis by simp
qed

lemma rhe_le: "of_int (round_half_even x) \<le> x + 1 / 2"
  unfolding round_half_even_def Let_def by (auto simp: not_less) linarith+

lemma rhe_ge: "x - 1 / 2 \<le> of_int (round_half_even x)"
  unfolding round_half_even_def Let_def by (auto simp: not_less) linarith+

lemma rhe_of_int [simp]: "round_half_even (of_int n) = n"
  by (simp add: round_half_even_def)

lemma rhe_ge_int: "of_int n \<le> x \<Longrightarrow> n \<le> round_half_even x"
proof -
  assume "of_int n \<le> x"
  with rhe_ge [of x] have "rat_of_int n - 1 / 2 \<le> of_int (round_half_even x)" by linarith
  then have "rat_of_int n < of_int (round_half_even x + 1)" by simp
  then have "n < round_half_even x + 1" by (simp only: of_int_less_iff)
  then show ?thesis by simp
qed

lemma rhe_le_int: "x \<le> of_int n \<Longrightarrow> round_half_even x \<le> n"
proof -
  assume "x \<le> of_int n"
  with rhe_le [of x] have "of_int (round_half_even x) \<le> rat_of_int n + 1 / 2" by linarith
  then have "rat_of_int (round_half_even x) < of_int (n + 1)" by simp
  then have "round_half_even x < n + 1" by (simp only: of_int_less_iff)
  then show ?thesis by simp
qed

lemma rhe_nonneg: "0 \<le> x \<Longrightarrow> 0 \<le> round_half_even x"
  using rhe_ge_int [of 0 x] by simp

lemma to_double_pos:
  "0 < q \<Longrightarrow> to_double q =
     (let e = max (ilog2 q - 52) min_exp;
          v = of_int (round_half_even (q / 2 powi e)) * 2 powi e
      in if overflow_threshold \<le> v then PInf else Fin v)"
  by (simp add: to_double_def Let_def)

lemma to_double_minus: "to_double (- q) = fneg (to_double q)"
  by (cases "q = 0") (auto simp: to_double_def Let_def sgn_if)

lemma pow2_pos [simp]: "0 < (2::rat) powi k"
  by (simp add: zero_less_power_int)

lemma pow2_split: "(2::rat) powi (a + b) = 2 powi a * 2 powi b"
  by (simp add: power_int_add)

lemma overflow_threshold_eq: "overflow_threshold = 2 powi 1024"
  by (simp add: overflow_threshold_def)

text \<open>Values at or beyond \<open>2 ^ 1024\<close> overflow.\<close>

lemma to_double_overflow:
  assumes "overflow_threshold \<le> q"
  shows "to_double q = PInf"
proof -
  have t: "0 < overflow_threshold" by (simp add: overflow_threshold_def)
  have q: "0 < q" using t assms by (rule less_le_trans)
  define k where "k = ilog2 q"
  define e where "e = max (k - 52) min_exp"
  define m where "m = round_half_even (q / 2 powi e)"
  from ilog2_bounds [OF q] have b: "2 powi k \<le> q" "q < 2 powi (k + 1)"
    by (simp_all add: k_def)
  from assms b(2) have "(2::rat) powi 1024 < 2 powi (k + 1)"
    unfolding overflow_threshold_eq by (rule le_less_trans)
  then have "1024 < k + 1" by (rule pow2_less_cancel)
  then have k: "1024 \<le> k" by simp
  then have e: "e = k - 52" by (simp add: e_def min_exp_def)
  have split: "(2::rat) powi k = rat_of_int (2 ^ 52) * 2 powi e"
    unfolding e using pow2_split [of 52 "k - 52"] by simp
  with b(1) have "rat_of_int (2 ^ 52) \<le> q / 2 powi e"
    by (simp add: field_simps)
  then have "2 ^ 52 \<le> m" unfolding m_def by (rule rhe_ge_int)
  then have "rat_of_int (2 ^ 52) \<le> of_int m"
    by (simp only: of_int_le_iff)
  then have "rat_of_int (2 ^ 52) * 2 powi e \<le> of_int m * 2 powi e"
    by (rule mult_right_mono) simp
  then have "(2::rat) powi k \<le> of_int m * 2 powi e"
    by (simp only: split)
  moreover have "(2::rat) powi 1024 \<le> 2 powi k" using k by (rule power_int_increasing) simp
  ultimately have "overflow_threshold \<le> of_int m * 2 powi e"
    unfolding overflow_threshold_eq by (rule order_trans [rotated])
  then show ?thesis
    using q by (simp add: to_double_pos Let_def e_def k_def m_def)
qed

lemma to_double_nonneg:
  assumes "0 \<le> q"
  shows "to_double q = PInf \<or> (\<exists>r. to_double q = Fin r \<and> 0 \<le> r)"
proof (cases "q = 0")
  case True
  then show ?thesis by (simp add: to_double_def)
next
  case False
  with assms have q: "0 < q" by simp
  define e where "e = max (ilog2 q - 52) min_exp"
  have "0 \<le> q / 2 powi e" using q by simp
  then have "0 \<le> round_half_even (q / 2 powi e)" by (rule rhe_nonneg)
  then have "0 \<le> rat_of_int (round_half_even (q / 2 powi e)) * 2 powi e" by simp
  then show ?thesis using q by (simp add: to_double_pos Let_def e_def)
qed

lemma to_double_normal:
  assumes "0 < q" and "2 powi (e + 52) \<le> q" and "q < 2 powi (e + 53)" and "min_exp \<le> e"
  shows "to_double q =
     (let v = of_int (round_half_even (q / 2 powi e)) * 2 powi e
      in if overflow_threshold \<le> v then PInf else Fin v)"
proof -
  have "ilog2 q = e + 52"
    using assms(1,2) by (rule ilog2_unique) (use assms(3) in \<open>simp add: add.commute\<close>)
  then have "max (ilog2 q - 52) min_exp = e" using assms(4) by simp
  then show ?thesis using assms(1) by (simp add: to_double_pos Let_def)
qed

lemma to_double_exact_pos:
  assumes q: "q = of_int m * 2 powi e" and m: "0 < m" "m < 2 ^ 53"
    and e: "min_exp \<le> e" and lt: "q < overflow_threshold"
  shows "to_double q = Fin q"
proof -
  have qpos: "0 < q" unfolding q using m(1) by simp
  define k where "k = ilog2 q"
  define e' where "e' = max (k - 52) min_exp"
  from ilog2_bounds [OF qpos] have b: "2 powi k \<le> q" by (simp add: k_def)
  have "rat_of_int m < of_int (2 ^ 53)" using m(2) by (simp only: of_int_less_iff)
  then have "rat_of_int m * 2 powi e < of_int (2 ^ 53) * 2 powi e"
    by (rule mult_strict_right_mono) simp
  also have "\<dots> = 2 powi (53 + e)" using pow2_split [of 53 e] by simp
  finally have "q < 2 powi (53 + e)" unfolding q .
  with b have "(2::rat) powi k < 2 powi (53 + e)" by (rule le_less_trans)
  then have "k < 53 + e" by (rule pow2_less_cancel)
  then have le: "e' \<le> e" using e by (simp add: e'_def)
  define d where "d = nat (e - e')"
  have ed: "e = e' + int d" using le by (simp add: d_def)
  have pe: "(2::rat) powi e = 2 powi e' * rat_of_int (2 ^ d)"
    unfolding ed using pow2_split [of e' "int d"] by simp
  have "q / 2 powi e' = rat_of_int m * rat_of_int (2 ^ d)"
    unfolding q pe by simp
  also have "\<dots> = rat_of_int (m * 2 ^ d)" by (simp only: of_int_mult)
  finally have "round_half_even (q / 2 powi e') = m * 2 ^ d" by (simp only: rhe_of_int)
  then have "rat_of_int (round_half_even (q / 2 powi e')) * 2 powi e' = rat_of_int (m * 2 ^ d) * 2 powi e'"
    by (simp only:)
  also have "\<dots> = q" unfolding q pe by (simp only: of_int_mult mult_ac)
  finally have "rat_of_int (round_half_even (q / 2 powi e')) * 2 powi e' = q" .
  then show ?thesis
    using qpos lt by (simp add: to_double_pos Let_def e'_def k_def)
qed

lemma to_double_exact:
  assumes "q = of_int m * 2 powi e" and "\<bar>m\<bar> < 2 ^ 53" and "min_exp \<le> e"
    and "\<bar>q\<bar> < overflow_threshold"
  shows "to_double q = Fin q"
proof -
  consider "m = 0" | "0 < m" | "m < 0" by linarith
  then show ?thesis
  proof cases
    case 1
    with assms(1) show ?thesis by (simp add: to_double_def)
  next
    case 2
    then have "0 < q" using assms(1) by simp
    with assms 2 show ?thesis by (intro to_double_exact_pos [of q m e]) simp_all
  next
    case 3
    then have "q < 0" using assms(1) by (simp add: mult_neg_pos)
    have "to_double (- q) = Fin (- q)"
      using assms 3 \<open>q < 0\<close> by (intro to_double_exact_pos [of "- q" "- m" e]) simp_all
    then show ?thesis
      unfolding to_double_minus by (cases "to_double q") simp_all
  qed
qed

lemma to_double_of_int:
  "\<bar>n\<bar> < 2 ^ 53 \<Longrightarrow> to_double (of_int n) = Fin (of_int n)"
proof -
  assume n: "\<bar>n\<bar> < 2 ^ 53"
  then have "\<bar>n\<bar> < 2 ^ 1024"
    by (rule less_trans) simp
  then have "rat_of_int \<bar>n\<bar> < of_int (2 ^ 1024)" by (simp only: of_int_less_iff)
  then have "\<bar>rat_of_int n\<bar> < overflow_threshold" by (simp add: overflow_threshold_def)
  with n show ?thesis by (intro to_double_exact [of _ n 0]) (simp_all add: min_exp_def)
qed

lemma to_double_tiny:
  assumes "2 powi min_exp \<le> r"
  shows "to_double r \<noteq> Fin 0"
proof -
  have "(0::rat) < 2 powi min_exp" by simp
  then have rpos: "0 < r" using assms by (rule less_le_trans)
  define k where "k = ilog2 r"
  define e where "e = max (k - 52) min_exp"
  define m where "m = round_half_even (r / 2 powi e)"
  from ilog2_bounds [OF rpos] have b: "2 powi k \<le> r" by (simp add: k_def)
  have "2 powi e \<le> r"
  proof (cases "k - 52 \<le> min_exp")
    case True
    then show ?thesis using assms by (simp add: e_def max_def)
  next
    case False
    then have "e = k - 52" by (simp add: e_def)
    then have "e \<le> k" by simp
    then have "(2::rat) powi e \<le> 2 powi k" by (rule power_int_increasing) simp
    then show ?thesis using b by (rule order_trans)
  qed
  then have "rat_of_int 1 \<le> r / 2 powi e" by (simp add: field_simps)
  then have "1 \<le> m" unfolding m_def by (rule rhe_ge_int)
  then have "m \<noteq> 0" by simp
  then show ?thesis
    using rpos by (simp add: to_double_pos Let_def e_def k_def m_def)
qed

lemma is_double_grid:
  assumes "is_double q"
  shows "\<exists>n. q = of_int n * 2 powi min_exp"
proof (cases "q = 0")
  case True
  then have "q = of_int 0 * 2 powi min_exp" by simp
  then show ?thesis by blast
next
  case False
  define e where "e = max (ilog2 \<bar>q\<bar> - 52) min_exp"
  define m where "m = round_half_even (\<bar>q\<bar> / 2 powi e)"
  define s :: int where "s = (if 0 < q then 1 else - 1)"
  from assms False have q: "q = sgn q * (of_int m * 2 powi e)"
    by (auto simp: is_double_def to_double_def Let_def e_def m_def split: if_splits)
  have sq: "sgn q = rat_of_int s" using False by (simp add: s_def sgn_if)
  have e: "min_exp \<le> e" by (simp add: e_def)
  define d where "d = nat (e - min_exp)"
  have "e = int d + min_exp" using e by (simp add: d_def)
  then have pe: "(2::rat) powi e = rat_of_int (2 ^ d) * 2 powi min_exp"
    using pow2_split [of "int d" min_exp] by simp
  have "q = rat_of_int s * (rat_of_int m * (rat_of_int (2 ^ d) * 2 powi min_exp))"
    by (subst q) (simp only: sq pe)
  also have "\<dots> = rat_of_int (s * m * 2 ^ d) * 2 powi min_exp"
    by (simp only: of_int_mult mult_ac)
  finally show ?thesis by blast
qed

lemma is_double_frac:
  assumes "is_double q" and "q \<noteq> of_int \<lfloor>q\<rfloor>"
  shows "to_double (q - of_int \<lfloor>q\<rfloor>) \<noteq> Fin 0"
proof -
  define G where "G = (2::rat) powi min_exp"
  have Gpos: "0 < G" by (simp add: G_def)
  from is_double_grid [OF assms(1)] obtain n where n: "q = rat_of_int n * G"
    unfolding G_def by blast
  define N where "N = nat (- min_exp)"
  have "- min_exp = int N" by (simp add: N_def min_exp_def)
  then have "(2::rat) powi (- min_exp) = rat_of_int (2 ^ N)" by simp
  moreover have "(2::rat) powi (- min_exp) * 2 powi min_exp = 1"
    using pow2_split [of "- min_exp" min_exp] by simp
  ultimately have one: "rat_of_int (2 ^ N) * G = 1" by (simp add: G_def)
  define r where "r = q - of_int \<lfloor>q\<rfloor>"
  have rpos: "0 < r"
  proof -
    have "rat_of_int \<lfloor>q\<rfloor> \<le> q" by (rule of_int_floor_le)
    with assms(2) have "rat_of_int \<lfloor>q\<rfloor> < q" by (simp only: order_le_less) auto
    then show ?thesis by (simp add: r_def)
  qed
  have "rat_of_int \<lfloor>q\<rfloor> = rat_of_int \<lfloor>q\<rfloor> * (rat_of_int (2 ^ N) * G)"
    by (simp only: one mult_1_right)
  also have "\<dots> = rat_of_int (\<lfloor>q\<rfloor> * 2 ^ N) * G"
    by (simp only: of_int_mult mult.assoc)
  finally have f: "rat_of_int \<lfloor>q\<rfloor> = rat_of_int (\<lfloor>q\<rfloor> * 2 ^ N) * G" .
  have "r = rat_of_int n * G - rat_of_int (\<lfloor>q\<rfloor> * 2 ^ N) * G"
    unfolding r_def using n f by (simp only:)
  also have "\<dots> = rat_of_int (n - \<lfloor>q\<rfloor> * 2 ^ N) * G"
    by (simp only: of_int_diff left_diff_distrib)
  finally have rr: "r = rat_of_int (n - \<lfloor>q\<rfloor> * 2 ^ N) * G" .
  with rpos Gpos have "0 < rat_of_int (n - \<lfloor>q\<rfloor> * 2 ^ N)"
    by (simp only: zero_less_mult_iff) auto
  then have "0 < n - \<lfloor>q\<rfloor> * 2 ^ N" by (simp only: of_int_0_less_iff)
  then have "1 \<le> n - \<lfloor>q\<rfloor> * 2 ^ N" by simp
  then have "rat_of_int 1 \<le> rat_of_int (n - \<lfloor>q\<rfloor> * 2 ^ N)" by (simp only: of_int_le_iff)
  then have "rat_of_int 1 * G \<le> rat_of_int (n - \<lfloor>q\<rfloor> * 2 ^ N) * G"
    using Gpos by (simp only: mult_le_cancel_right) simp
  then have "G \<le> r" unfolding rr by simp
  then show ?thesis unfolding r_def G_def by (rule to_double_tiny)
qed

lemma rhe_fract:
  assumes "0 < b"
  shows "round_half_even (of_int a / of_int b) =
     (if 2 * (a mod b) < b then a div b
      else if b < 2 * (a mod b) then a div b + 1
      else if even (a div b) then a div b else a div b + 1)"
proof -
  have f: "\<lfloor>rat_of_int a / of_int b\<rfloor> = a div b" by (rule floor_divide_of_int_eq)
  have bpos: "0 < rat_of_int b" using assms by simp
  have "rat_of_int a = of_int (a div b * b + a mod b)" by simp
  also have "\<dots> = of_int (a div b) * of_int b + of_int (a mod b)"
    by (simp only: of_int_add of_int_mult)
  finally have "rat_of_int a / of_int b = of_int (a div b) + of_int (a mod b) / of_int b"
    using bpos by (simp add: field_simps)
  then have r: "rat_of_int a / of_int b - of_int (a div b) = of_int (a mod b) / of_int b"
    by simp
  have lt: "rat_of_int (a mod b) / of_int b < 1 / 2 \<longleftrightarrow> 2 * (a mod b) < b"
  proof -
    have "rat_of_int (a mod b) / of_int b < 1 / 2 \<longleftrightarrow> rat_of_int (2 * (a mod b)) < of_int b"
      using bpos by (simp add: field_simps)
    then show ?thesis by (simp only: of_int_less_iff)
  qed
  have gt: "1 / 2 < rat_of_int (a mod b) / of_int b \<longleftrightarrow> b < 2 * (a mod b)"
  proof -
    have "1 / 2 < rat_of_int (a mod b) / of_int b \<longleftrightarrow> rat_of_int b < of_int (2 * (a mod b))"
      using bpos by (simp add: field_simps)
    then show ?thesis by (simp only: of_int_less_iff)
  qed
  show ?thesis
    unfolding round_half_even_def Let_def f r lt gt by (rule refl)
qed

lemma rhe_numeral_div:
  "round_half_even (numeral a / numeral b) =
     (if 2 * (numeral a mod numeral b) < (numeral b :: int) then numeral a div numeral b
      else if (numeral b :: int) < 2 * (numeral a mod numeral b) then numeral a div numeral b + 1
      else if even (numeral a div numeral b :: int) then numeral a div numeral b
      else numeral a div numeral b + 1)"
  using rhe_fract [of "numeral b" "numeral a"] by simp

lemma rhe_numeral [simp]: "round_half_even (numeral a) = numeral a"
  using rhe_of_int [of "numeral a"] by simp

subsection \<open>Values of particular floats\<close>

text \<open>
  The nearest double of the decimal literals and of the intermediate results that occur in
  the examples, each as an exact fraction.
\<close>

lemma to_double_not_nan [simp]: "to_double q \<noteq> NaN"
  by (simp add: to_double_def Let_def)

lemma td_2286_09: "to_double (228609 / 100) = Fin (628395634285609 / 274877906944)"
  using to_double_normal [of "228609 / 100" "- 41"]
  by (simp add: min_exp_def overflow_threshold_def rhe_numeral_div)

lemma td_29973_18: "to_double (1498659 / 50) = Fin (4119482491427881 / 137438953472)"
  using to_double_normal [of "1498659 / 50" "- 38"]
  by (simp add: min_exp_def overflow_threshold_def rhe_numeral_div)

lemma td_sum1: "to_double (7610569348570153 / 274877906944) = Fin (7610569348570153 / 274877906944)"
  using to_double_exact [of "7610569348570153 / 274877906944" 7610569348570153 "- 38"]
  by (simp add: min_exp_def overflow_threshold_def)

lemma td_sum2: "to_double (4119482491427881 / 137438953472) = Fin (4119482491427881 / 137438953472)"
  using to_double_exact [of "4119482491427881 / 137438953472" 4119482491427881 "- 37"]
  by (simp add: min_exp_def overflow_threshold_def)

lemma td_diff: "to_double (24739011625 / 137438953472) = Fin (24739011625 / 137438953472)"
  using to_double_exact [of "24739011625 / 137438953472" 24739011625 "- 37"]
  by (simp add: min_exp_def overflow_threshold_def)

lemma td_0_01: "to_double (1 / 100) = Fin (5764607523034235 / 576460752303423488)"
  using to_double_normal [of "1 / 100" "- 59"]
  by (simp add: min_exp_def overflow_threshold_def rhe_numeral_div)

lemma td_0_18: "to_double (9 / 50) = Fin (3242591731706757 / 18014398509481984)"
  using to_double_normal [of "9 / 50" "- 55"]
  by (simp add: min_exp_def overflow_threshold_def rhe_numeral_div)

lemma td_ratio: "to_double (628395634285609 / 6982173714284544) = Fin (6485183463413515 / 72057594037927936)"
  using to_double_normal [of "628395634285609 / 6982173714284544" "- 56"]
  by (simp add: min_exp_def overflow_threshold_def rhe_numeral_div)

lemma td_percent: "to_double (162129586585337875 / 18014398509481984) = Fin (5066549580791809 / 562949953421312)"
  using to_double_normal [of "162129586585337875 / 18014398509481984" "- 49"]
  by (simp add: min_exp_def overflow_threshold_def rhe_numeral_div)

lemma td_9: "to_double 9 = Fin 9"
  using to_double_of_int [of 9] by simp

lemma td_25401: "to_double 25401 = Fin 25401"
  using to_double_of_int [of 25401] by simp

lemma td_29973: "to_double 29973 = Fin 29973"
  using to_double_of_int [of 29973] by simp

lemma double_2286_09: "is_double (628395634285609 / 274877906944)"
  unfolding is_double_def
  using to_double_exact [of "628395634285609 / 274877906944" 628395634285609 "- 38"]
  by (simp add: min_exp_def overflow_threshold_def)

lemma double_2286: "is_double 2286"
  unfolding is_double_def using to_double_of_int [of 2286] by simp

lemma round_example: "round_half_even (4119482491427881 / 137438953472) = 29973"
  by (simp add: rhe_numeral_div)

lemma round_hundredths_example: "round_half_even (618475290625 / 34359738368) = 18"
  by (simp add: rhe_numeral_div)

lemma hundredths_2286_09: "round_half_even (15709890857140225 / 68719476736) = 228609"
  by (simp add: rhe_numeral_div)

subsection \<open>Strings of particular numbers\<close>

lemmas parse_defs = float_of_str_def float_strip_def is_float_space_def split_sign_def
  remove_all_def parse_decimal_def is_digit_def digits_value_def digit_value_def to_lower_def
  Let_def

lemma fos_0: "float_of_str ''0'' = Some (Fin 0)"
  by (simp add: parse_defs to_double_def)

lemma fos_25401: "float_of_str ''25401'' = Some (Fin 25401)"
  by (simp add: parse_defs td_25401)

lemma fos_2286_09: "float_of_str ''2286.09'' = Some (Fin (628395634285609 / 274877906944))"
  by (simp add: parse_defs td_2286_09)

lemma fos_29973_18: "float_of_str ''29973.18'' = Some (Fin (4119482491427881 / 137438953472))"
  by (simp add: parse_defs td_29973_18)

lemma str_int_1: "str_int 1 = [CHR 0x31]"
  by code_simp

lemma str_nat_2286: "str_nat 2286 = ''2286''"
  by code_simp

lemma str_int_2286: "str_int 2286 = ''2286''"
  by code_simp

lemma digit_char_0: "digit_char 0 = CHR ''0''"
  by code_simp

lemma digit_char_9: "digit_char 9 = CHR ''9''"
  by code_simp

subsection \<open>Parsing the customer\<close>

lemma split_once_comma:
  "sep \<notin> set a \<Longrightarrow> split_once sep (a @ sep # b) = [a, b]"
proof -
  assume a: "sep \<notin> set a"
  then have all: "\<And>x. x \<in> set a \<Longrightarrow> x \<noteq> sep" by auto
  have t: "takeWhile (\<lambda>c. c \<noteq> sep) (a @ sep # b) = a"
    using all by (simp add: takeWhile_append2)
  have d: "dropWhile (\<lambda>c. c \<noteq> sep) (a @ sep # b) = sep # b"
    using all by (simp add: dropWhile_append2)
  show ?thesis unfolding split_once_def t d by simp
qed

lemma split_once_none: "sep \<notin> set s \<Longrightarrow> split_once sep s = [s]"
  by (simp add: split_once_def)

lemma strip_trims:
  "\<exists>l r. s = l @ strip s @ r \<and> list_all is_space l \<and> list_all is_space r \<and>
         (if strip s = [] then True else \<not> is_space (hd (strip s)) \<and> \<not> is_space (last (strip s)))"
proof -
  define t where "t = dropWhile is_space s"
  define l where "l = takeWhile is_space s"
  define r where "r = rev (takeWhile is_space (rev t))"
  have s: "s = l @ t" by (simp add: l_def t_def)
  have st: "strip s = rev (dropWhile is_space (rev t))" by (simp add: strip_def t_def)
  have "rev t = takeWhile is_space (rev t) @ dropWhile is_space (rev t)" by simp
  then have "rev (rev t) = rev (takeWhile is_space (rev t) @ dropWhile is_space (rev t))"
    by (simp only:)
  then have t: "t = strip s @ r" unfolding st r_def rev_append rev_rev_ident .
  have ll: "list_all is_space l"
    unfolding l_def list_all_iff by (auto dest: set_takeWhileD)
  have lr: "list_all is_space r"
    unfolding r_def list_all_iff by (auto dest: set_takeWhileD)
  have ends: "\<not> is_space (hd (strip s)) \<and> \<not> is_space (last (strip s))" if ne: "strip s \<noteq> []"
  proof -
    from ne have d: "dropWhile is_space (rev t) \<noteq> []" by (simp add: st)
    then have "\<not> is_space (hd (dropWhile is_space (rev t)))" by (rule hd_dropWhile)
    then have la: "\<not> is_space (last (strip s))" using d by (simp add: st last_rev)
    from ne t have "t \<noteq> []" by auto
    then have "\<not> is_space (hd t)" unfolding t_def by (rule hd_dropWhile)
    moreover have "hd t = hd (strip s)" using ne by (subst t) simp
    ultimately show ?thesis using la by simp
  qed
  from s t ll lr ends show ?thesis by (intro exI [of _ l] exI [of _ r]) auto
qed

text \<open>
  Claim C5. \<open>_parse_customer_info\<close> splits the \<open>to\<close> string at its first comma. With a
  comma, that is for \<open>a\<close> without comma followed by a comma and any \<open>b\<close>, the name is \<open>a\<close>
  trimmed and the address is \<open>b\<close> trimmed. Without a comma, the name is the whole string
  trimmed and the address is the whole string, unmodified. Trimming removes exactly the
  surrounding whitespace: what is cut off on either side is whitespace, and what is
  left neither starts nor ends with whitespace.
\<close>

theorem parse_customer_info_first_comma:
  assumes "CHR '','' \<notin> set a" and "CHR '','' \<notin> set s"
  shows "parse_customer_info (a @ '','' @ b) = (strip a, strip b) \<and>
         parse_customer_info s = (strip s, s) \<and>
         (\<forall>x. \<exists>l r. x = l @ strip x @ r \<and> list_all is_space l \<and> list_all is_space r \<and>
            (if strip x = [] then True
             else \<not> is_space (hd (strip x)) \<and> \<not> is_space (last (strip x))))"
  using assms strip_trims
  by (simp add: parse_customer_info_def split_once_comma split_once_none)

theorem parse_customer_info_first_comma_witness:
  "CHR '','' \<notin> set ''ABC'' \<and> CHR '','' \<notin> set ''Just A Name'' \<and>
   parse_customer_info (''ABC'' @ '','' @ '' 123 Street'') = (''ABC'', ''123 Street'') \<and>
   parse_customer_info ''ABC, 123 Street'' = (''ABC'', ''123 Street'') \<and>
   parse_customer_info ''Just A Name'' = (''Just A Name'', ''Just A Name'')"
  using parse_customer_info_first_comma [of "''ABC''" "''Just A Name''" "'' 123 Street''"]
  by (simp add: strip_def is_space_def)

subsection \<open>Numeric coercion\<close>

lemma float_of_int_small: "\<bar>n\<bar> < 2 ^ 53 \<Longrightarrow> float_of_int n = Inr (Fin (of_int n))"
  by (simp add: float_of_int_def to_double_of_int)

lemma float_of_int_huge: "float_of_int (10 ^ 400) = Inl OverflowError"
proof -
  have "to_double (of_int (10 ^ 400)) = PInf"
    by (rule to_double_overflow) (simp add: overflow_threshold_def)
  then show ?thesis by (simp add: float_of_int_def)
qed

lemma safe_float_none: "safe_float PNone dflt = Inr dflt"
  by (simp add: safe_float_def)

lemma safe_float_empty: "safe_float (PStr '''') dflt = Inr dflt"
  by (simp add: safe_float_def)

lemma safe_float_str: "\<exists>f. safe_float (PStr s) dflt = Inr f"
  by (simp add: safe_float_def split: option.splits)

lemma safe_float_str_unparsed:
  "float_of_str (remove_all CHR '','' s) = None \<Longrightarrow> safe_float (PStr s) dflt = Inr dflt"
  by (simp add: safe_float_def)

lemma safe_float_str_parsed:
  "s \<noteq> [] \<Longrightarrow> float_of_str (remove_all CHR '','' s) = Some f \<Longrightarrow> safe_float (PStr s) dflt = Inr f"
  by (simp add: safe_float_def)

lemma safe_float_float: "safe_float (PFloat f) dflt = Inr f"
  by (simp add: safe_float_def)

lemma safe_float_int_small: "\<bar>n\<bar> < 2 ^ 53 \<Longrightarrow> safe_float (PInt n) dflt = Inr (Fin (of_int n))"
  by (simp add: safe_float_def float_of_int_small)

lemma safe_float_25401: "safe_float (PStr ''25,401'') dflt = Inr (Fin 25401)"
  using fos_25401 by (simp add: safe_float_def remove_all_def)

lemma safe_float_abc: "safe_float (PStr ''abc'') dflt = Inr dflt"
  by (simp add: safe_float_def float_of_str_def float_strip_def is_float_space_def split_sign_def
      remove_all_def parse_decimal_def is_digit_def to_lower_def Let_def)

lemma sf_0: "safe_float (PStr ''0'') dflt = Inr (Fin 0)"
  using fos_0 by (simp add: safe_float_def remove_all_def)

lemma sf_25401: "safe_float (PStr ''25401'') dflt = Inr (Fin 25401)"
  using fos_25401 by (simp add: safe_float_def remove_all_def)

lemma sf_2286_09: "safe_float (PStr ''2286.09'') dflt = Inr (Fin (628395634285609 / 274877906944))"
  using fos_2286_09 by (simp add: safe_float_def remove_all_def)

lemma sf_29973_18: "safe_float (PStr ''29973.18'') dflt = Inr (Fin (4119482491427881 / 137438953472))"
  using fos_29973_18 by (simp add: safe_float_def remove_all_def)

text \<open>
  Claim C6 says that \<open>safe_float\<close> never raises for a string, an integer, a float or
  \<open>None\<close>. That holds for \<open>None\<close>, for every string and for every float (the lemmas above),
  and fails for an integer too large for a float: \<open>float(10 ** 400)\<close> raises
  \<open>OverflowError\<close>, which \<open>except (ValueError, AttributeError)\<close> does not catch.
\<close>

theorem safe_float_huge_int_raises:
  "safe_float (PInt (10 ^ 400)) dflt = Inl OverflowError"
  using float_of_int_huge by (simp add: safe_float_def)

subsection \<open>The tax rate\<close>

lemma rate_example:
  "calculate_tax_rate (Fin (628395634285609 / 274877906944)) (Fin 25401) default_rate =
     Inr (Float_Number (Fin 9))"
  by (simp add: calculate_tax_rate_def fgt_def and_then_def td_ratio td_percent td_9
      rhe_numeral_div)

text \<open>
  Claim C4. \<open>_calculate_tax_rate\<close> returns \<open>round(tax_amount / taxable * 100, 2)\<close> when
  \<open>taxable > 0\<close> and \<open>tax_amount > 0\<close>, the division never raising there, and the default
  rate in every other case. For finite floats the condition is \<open>0 < b\<close> and \<open>0 < t\<close> on
  their values. A tax amount of 0 gives the default rate whatever the taxable amount,
  and with the configured default the rate is the integer 9.
\<close>

theorem calculate_tax_rate_cases:
  "(fgt taxable (Fin 0) \<and> fgt tax_amount (Fin 0) \<longrightarrow>
      (\<exists>ratio. fdiv tax_amount taxable = Inr ratio \<and>
         calculate_tax_rate tax_amount taxable default_rate =
           Inr (Float_Number (round_ndigits (fmul ratio (Fin 100)) 2)))) \<and>
   (\<not> (fgt taxable (Fin 0) \<and> fgt tax_amount (Fin 0)) \<longrightarrow>
      calculate_tax_rate tax_amount taxable default_rate = Inr default_rate) \<and>
   calculate_tax_rate (Fin t) (Fin b) default_rate =
     (if 0 < b \<and> 0 < t
      then Inr (Float_Number (round_ndigits (fmul (to_double (t / b)) (Fin 100)) 2))
      else Inr default_rate) \<and>
   calculate_tax_rate (Fin 0) taxable default_rate = Inr default_rate \<and>
   calculate_tax_rate (Fin 0) (Fin 0) DEFAULT_CGST_RATE = Inr (Int_Number 9)"
proof -
  have a: "\<exists>ratio. fdiv tax_amount taxable = Inr ratio \<and>
         calculate_tax_rate tax_amount taxable default_rate =
           Inr (Float_Number (round_ndigits (fmul ratio (Fin 100)) 2))"
    if "fgt taxable (Fin 0)" "fgt tax_amount (Fin 0)"
  proof (cases taxable)
    case (Fin b)
    with that(1) have "b \<noteq> 0" by (simp add: fgt_def)
    with Fin that show ?thesis by (simp add: calculate_tax_rate_def and_then_def)
  next
    case PInf
    with that show ?thesis
      by (cases tax_amount) (simp_all add: calculate_tax_rate_def and_then_def)
  next
    case NInf
    with that(1) show ?thesis by (simp add: fgt_def)
  next
    case NaN
    with that(1) show ?thesis by (simp add: fgt_def)
  qed
  have b: "calculate_tax_rate tax_amount taxable default_rate = Inr default_rate"
    if "\<not> (fgt taxable (Fin 0) \<and> fgt tax_amount (Fin 0))"
    using that unfolding calculate_tax_rate_def by (simp only: if_False)
  have c: "calculate_tax_rate (Fin t) (Fin b) default_rate =
     (if 0 < b \<and> 0 < t
      then Inr (Float_Number (round_ndigits (fmul (to_double (t / b)) (Fin 100)) 2))
      else Inr default_rate)"
    by (simp add: calculate_tax_rate_def fgt_def and_then_def)
  have d: "calculate_tax_rate (Fin 0) taxable default_rate = Inr default_rate"
    by (simp add: calculate_tax_rate_def fgt_def)
  have e: "calculate_tax_rate (Fin 0) (Fin 0) DEFAULT_CGST_RATE = Inr (Int_Number 9)"
    by (simp add: calculate_tax_rate_def fgt_def DEFAULT_CGST_RATE_def)
  from a b c d e show ?thesis by blast
qed

theorem calculate_tax_rate_cases_witness:
  "fgt (Fin 25401) (Fin 0) \<and> fgt (to_double (228609 / 100)) (Fin 0) \<and>
   fdiv (to_double (228609 / 100)) (Fin 25401) = Inr (Fin (6485183463413515 / 72057594037927936)) \<and>
   calculate_tax_rate (to_double (228609 / 100)) (Fin 25401) DEFAULT_CGST_RATE =
     Inr (Float_Number (Fin 9)) \<and>
   \<not> (fgt (Fin 25401) (Fin 0) \<and> fgt (Fin 0) (Fin 0)) \<and>
   calculate_tax_rate (Fin 0) (Fin 25401) DEFAULT_CGST_RATE = Inr (Int_Number 9)"
  using calculate_tax_rate_cases
          [of "Fin 25401" "Fin (628395634285609 / 274877906944)" DEFAULT_CGST_RATE 0 0]
        calculate_tax_rate_cases [of "Fin 25401" "Fin 0" DEFAULT_CGST_RATE 0 0]
  by (simp add: fgt_def td_2286_09 td_ratio td_percent td_9 rhe_numeral_div
      DEFAULT_CGST_RATE_def)

subsection \<open>Round-off and invoice total\<close>

lemma and_then_Inr: "and_then m f = Inr y \<longleftrightarrow> (\<exists>x. m = Inr x \<and> f x = Inr y)"
  by (cases m) (simp_all add: and_then_def)

lemma transform_input_Inr:
  assumes "transform_input str_of cfg v = Inr r"
  shows "\<exists>d taxable cgst sgst total rounded rf.
     v = PDict d \<and>
     safe_float (dict_get d ''taxable_amount'' (PStr ''0'')) (Fin 0) = Inr taxable \<and>
     safe_float (dict_get d ''cgst'' (PStr ''0'')) (Fin 0) = Inr cgst \<and>
     safe_float (dict_get d ''sgst'' (PStr ''0'')) (Fin 0) = Inr sgst \<and>
     safe_float (dict_get d ''total'' (PStr ''0'')) (Fin 0) = Inr total \<and>
     py_round (fadd (fadd taxable cgst) sgst) = Inr rounded \<and>
     float_of_int rounded = Inr rf \<and>
     taxable_amount (tax_summary r) = taxable \<and>
     cgst_amount (tax_summary r) = cgst \<and>
     sgst_amount (tax_summary r) = sgst \<and>
     round_off (tax_summary r) =
       (if fgt (fabs (fabs (fsub rf (fadd (fadd taxable cgst) sgst)))) (to_double (1 / 100))
        then PFloat (round_ndigits (fabs (fsub rf (fadd (fadd taxable cgst) sgst))) 2)
        else PStr '''') \<and>
     invoice_total (tax_summary r) =
       (if fgt total (Fin 0) then Float_Number total else Int_Number rounded)"
proof -
  from assms obtain d where d: "v = PDict d"
    by (cases v) (simp_all add: transform_input_def)
  from assms show ?thesis
    unfolding d transform_input_def pyval.case and_then_Inr Let_def
    by (elim exE conjE) auto
qed

lemma py_round_Inr: "py_round x = Inr n \<Longrightarrow> \<exists>q. x = Fin q \<and> n = round_half_even q"
  by (cases x) auto

lemma float_of_int_Inr: "float_of_int n = Inr x \<Longrightarrow> \<exists>p. x = Fin p"
  by (cases "to_double (of_int n)") (auto simp: float_of_int_def)

lemma fabs_fsub_fin:
  "fabs (fsub (Fin p) (Fin q)) = PInf \<or> (\<exists>z. fabs (fsub (Fin p) (Fin q)) = Fin z \<and> 0 \<le> z)"
  by (cases "to_double (p + - q)") (simp_all add: fsub_def)

lemma round_ndigits_nonneg:
  "0 \<le> z \<Longrightarrow> round_ndigits (Fin z) n = PInf \<or> (\<exists>y. round_ndigits (Fin z) n = Fin y \<and> 0 \<le> y)"
proof -
  assume "0 \<le> z"
  then have "0 \<le> z * 10 ^ n" by simp
  then have "0 \<le> round_half_even (z * 10 ^ n)" by (rule rhe_nonneg)
  then have "0 \<le> rat_of_int (round_half_even (z * 10 ^ n)) / 10 ^ n" by simp
  then show ?thesis unfolding round_ndigits.simps by (rule to_double_nonneg)
qed

lemma total_example:
  "fadd (fadd (Fin 25401) (Fin (628395634285609 / 274877906944)))
        (Fin (628395634285609 / 274877906944)) = Fin (4119482491427881 / 137438953472)"
  by (simp add: td_sum1 td_sum2)

lemma magnitude_example:
  "fabs (fsub (Fin 29973) (Fin (4119482491427881 / 137438953472))) =
     Fin (24739011625 / 137438953472)"
  using to_double_minus [of "24739011625 / 137438953472"]
  by (simp add: fsub_def td_diff)

lemma round_off_example:
  "round_ndigits (Fin (24739011625 / 137438953472)) 2 =
     Fin (3242591731706757 / 18014398509481984)"
  by (simp, simp add: round_hundredths_example td_0_18)

lemma items_example:
  "transform_items str_of_simple
     (PList [PDict [(''name'', PStr ''Test Service Item''), (''hsn'', PStr ''997329''),
                    (''qty'', PInt 1), (''rate'', PStr ''25401''), (''amount'', PStr ''25401'')]]) =
   Inr [\<lparr>description = PStr ''Test Service Item'', hsn_code = PStr ''997329'',
         quantity = ''1'', rate = ''25401'', amount = Fin 25401\<rparr>]"
  by (simp add: transform_items_def transform_item_def and_then_def dict_get_def sf_25401
      str_int_1)

lemma customer_example:
  "parse_customer_info ''The Director, CSIR - National Metallurgical Laboratory'' =
     (''The Director'', ''CSIR - National Metallurgical Laboratory'')"
  by (simp add: parse_customer_info_def split_once_def strip_def is_space_def)

lemma transform_input_example:
  "transform_input str_of_simple cfg test_decimal_invoice_data =
     Inr \<lparr>company = cfg,
          invoice_number = PStr ''TEST-DECIMAL-001'',
          invoice_date = PStr ''09-Dec-2025'',
          customer = \<lparr>name = ''The Director'',
                      address = ''CSIR - National Metallurgical Laboratory'',
                      gstin = PStr ''20AAATC2716R2ZS''\<rparr>,
          job_description = PStr ''Test Invoice with Decimals'',
          event_name = PStr '''',
          items = [\<lparr>description = PStr ''Test Service Item'', hsn_code = PStr ''997329'',
                    quantity = ''1'', rate = ''25401'', amount = Fin 25401\<rparr>],
          tax_summary =
            \<lparr>taxable_amount = Fin 25401,
             cgst_rate = Float_Number (Fin 9),
             cgst_amount = Fin (628395634285609 / 274877906944),
             sgst_rate = Float_Number (Fin 9),
             sgst_amount = Fin (628395634285609 / 274877906944),
             igst_rate = PStr '''',
             round_off = PFloat (Fin (3242591731706757 / 18014398509481984)),
             invoice_total = Float_Number (Fin (4119482491427881 / 137438953472))\<rparr>\<rparr>"
  unfolding test_decimal_invoice_data_def transform_input_def
  by (simp add: and_then_def dict_get_def items_example customer_example sf_25401 sf_2286_09
      sf_29973_18 rate_example total_example round_example float_of_int_def td_29973
      magnitude_example round_off_example td_0_01 fgt_def DEFAULT_CUSTOMER_GSTIN_def
      Let_def del: fadd.simps round_ndigits.simps)

lemma transform_input_example_without_total:
  "transform_input str_of_simple cfg test_decimal_without_total =
     Inr \<lparr>company = cfg,
          invoice_number = PStr ''TEST-DECIMAL-001'',
          invoice_date = PStr ''09-Dec-2025'',
          customer = \<lparr>name = ''The Director'',
                      address = ''CSIR - National Metallurgical Laboratory'',
                      gstin = PStr ''20AAATC2716R2ZS''\<rparr>,
          job_description = PStr ''Test Invoice with Decimals'',
          event_name = PStr '''',
          items = [\<lparr>description = PStr ''Test Service Item'', hsn_code = PStr ''997329'',
                    quantity = ''1'', rate = ''25401'', amount = Fin 25401\<rparr>],
          tax_summary =
            \<lparr>taxable_amount = Fin 25401,
             cgst_rate = Float_Number (Fin 9),
             cgst_amount = Fin (628395634285609 / 274877906944),
             sgst_rate = Float_Number (Fin 9),
             sgst_amount = Fin (628395634285609 / 274877906944),
             igst_rate = PStr '''',
             round_off = PFloat (Fin (3242591731706757 / 18014398509481984)),
             invoice_total = Int_Number 29973\<rparr>\<rparr>"
  unfolding test_decimal_without_total_def transform_input_def
  by (simp add: and_then_def dict_get_def items_example customer_example sf_25401 sf_2286_09
      sf_0 rate_example total_example round_example float_of_int_def td_29973
      magnitude_example round_off_example td_0_01 fgt_def DEFAULT_CUSTOMER_GSTIN_def
      Let_def del: fadd.simps round_ndigits.simps)

text \<open>
  Claim C3. In a record returned by \<open>_transform_input\<close>, let \<open>q\<close> be the float sum
  \<open>taxable + cgst_amount + sgst_amount\<close> of the coerced inputs. The round-off magnitude is
  \<open>abs(round(q) - q)\<close>, with \<open>round\<close> to the nearest integer, ties to even, and it is not
  negative. The field \<open>round_off\<close> is the empty string when the magnitude is at most 0.01
  and otherwise the magnitude rounded to 2 decimal places; whenever it is a number, it is
  not negative.
\<close>

theorem transform_input_round_off:
  assumes "transform_input str_of cfg invoice_data = Inr r"
  shows "\<exists>d taxable cgst sgst q rounded_float magnitude.
     invoice_data = PDict d \<and>
     safe_float (dict_get d ''taxable_amount'' (PStr ''0'')) (Fin 0) = Inr taxable \<and>
     safe_float (dict_get d ''cgst'' (PStr ''0'')) (Fin 0) = Inr cgst \<and>
     safe_float (dict_get d ''sgst'' (PStr ''0'')) (Fin 0) = Inr sgst \<and>
     fadd (fadd taxable cgst) sgst = Fin q \<and>
     float_of_int (round_half_even q) = Inr rounded_float \<and>
     magnitude = fabs (fsub rounded_float (Fin q)) \<and>
     fle (Fin 0) magnitude \<and>
     round_off (tax_summary r) =
       (if fle magnitude (to_double (1 / 100)) then PStr ''''
        else PFloat (round_ndigits magnitude 2)) \<and>
     (\<forall>x. round_off (tax_summary r) = PFloat x \<longrightarrow> fle (Fin 0) x)"
proof -
  from transform_input_Inr [OF assms] obtain d taxable cgst sgst total rounded rf
    where d: "invoice_data = PDict d"
      and t: "safe_float (dict_get d ''taxable_amount'' (PStr ''0'')) (Fin 0) = Inr taxable"
      and c: "safe_float (dict_get d ''cgst'' (PStr ''0'')) (Fin 0) = Inr cgst"
      and s: "safe_float (dict_get d ''sgst'' (PStr ''0'')) (Fin 0) = Inr sgst"
      and pr: "py_round (fadd (fadd taxable cgst) sgst) = Inr rounded"
      and fi: "float_of_int rounded = Inr rf"
      and ro: "round_off (tax_summary r) =
       (if fgt (fabs (fabs (fsub rf (fadd (fadd taxable cgst) sgst)))) (to_double (1 / 100))
        then PFloat (round_ndigits (fabs (fsub rf (fadd (fadd taxable cgst) sgst))) 2)
        else PStr '''')"
    by blast
  from py_round_Inr [OF pr] obtain q
    where q: "fadd (fadd taxable cgst) sgst = Fin q" "rounded = round_half_even q" by blast
  from float_of_int_Inr [OF fi] obtain p where p: "rf = Fin p" by blast
  define magnitude where "magnitude = fabs (fsub rf (Fin q))"
  from fabs_fsub_fin [of p q]
  have m: "magnitude = PInf \<or> (\<exists>z. magnitude = Fin z \<and> 0 \<le> z)"
    by (simp add: magnitude_def p)
  then have nn: "fle (Fin 0) magnitude" by (auto simp: fle_def)
  from m have idem: "fabs magnitude = magnitude" by auto
  have cmp: "fgt magnitude (to_double (1 / 100)) \<longleftrightarrow> \<not> fle magnitude (to_double (1 / 100))"
    using m by (cases "to_double (1 / 100)") (auto simp: fgt_def fle_def)
  have ro': "round_off (tax_summary r) =
       (if fle magnitude (to_double (1 / 100)) then PStr ''''
        else PFloat (round_ndigits magnitude 2))"
    using ro unfolding q(1) magnitude_def [symmetric] idem cmp by simp
  have pos: "fle (Fin 0) x" if "round_off (tax_summary r) = PFloat x" for x
  proof -
    from that ro' have x: "x = round_ndigits magnitude 2"
      by (simp split: if_splits)
    from m show ?thesis
    proof
      assume "magnitude = PInf"
      then show ?thesis by (simp add: x fle_def)
    next
      assume "\<exists>z. magnitude = Fin z \<and> 0 \<le> z"
      then obtain z where z: "magnitude = Fin z" "0 \<le> z" by blast
      from round_ndigits_nonneg [OF z(2), of 2] show ?thesis
        unfolding x z(1) by (auto simp: fle_def)
    qed
  qed
  from fi q(2) have fi': "float_of_int (round_half_even q) = Inr rf" by simp
  from d t c s q(1) fi' nn ro' pos show ?thesis
    unfolding magnitude_def by blast
qed

theorem transform_input_round_off_witness:
  "\<exists>r. transform_input str_of_simple () test_decimal_invoice_data = Inr r \<and>
        fadd (fadd (taxable_amount (tax_summary r)) (cgst_amount (tax_summary r)))
             (sgst_amount (tax_summary r)) = Fin (4119482491427881 / 137438953472) \<and>
        round_half_even (4119482491427881 / 137438953472) = 29973 \<and>
        round_off (tax_summary r) = PFloat (Fin (3242591731706757 / 18014398509481984)) \<and>
        fle (Fin 0) (Fin (3242591731706757 / 18014398509481984))"
  using transform_input_round_off [OF transform_input_example [of "()"]]
    transform_input_example [of "()"] total_example round_example
  by (simp add: fle_def)

text \<open>
  Claim C7. In a record returned by \<open>_transform_input\<close>, \<open>invoice_total\<close> is the supplied
  total as coerced by \<open>safe_float\<close> when that float is greater than 0, and otherwise the
  integer \<open>round(taxable + cgst_amount + sgst_amount)\<close>.
\<close>

theorem transform_input_invoice_total:
  assumes "transform_input str_of cfg invoice_data = Inr r"
  shows "\<exists>d taxable cgst sgst total_input q.
     invoice_data = PDict d \<and>
     safe_float (dict_get d ''taxable_amount'' (PStr ''0'')) (Fin 0) = Inr taxable \<and>
     safe_float (dict_get d ''cgst'' (PStr ''0'')) (Fin 0) = Inr cgst \<and>
     safe_float (dict_get d ''sgst'' (PStr ''0'')) (Fin 0) = Inr sgst \<and>
     safe_float (dict_get d ''total'' (PStr ''0'')) (Fin 0) = Inr total_input \<and>
     fadd (fadd taxable cgst) sgst = Fin q \<and>
     invoice_total (tax_summary r) =
       (if fgt total_input (Fin 0) then Float_Number total_input
        else Int_Number (round_half_even q))"
proof -
  from transform_input_Inr [OF assms] obtain d taxable cgst sgst total rounded
    where d: "invoice_data = PDict d"
      and t: "safe_float (dict_get d ''taxable_amount'' (PStr ''0'')) (Fin 0) = Inr taxable"
      and c: "safe_float (dict_get d ''cgst'' (PStr ''0'')) (Fin 0) = Inr cgst"
      and s: "safe_float (dict_get d ''sgst'' (PStr ''0'')) (Fin 0) = Inr sgst"
      and tt: "safe_float (dict_get d ''total'' (PStr ''0'')) (Fin 0) = Inr total"
      and pr: "py_round (fadd (fadd taxable cgst) sgst) = Inr rounded"
      and it: "invoice_total (tax_summary r) =
       (if fgt total (Fin 0) then Float_Number total else Int_Number rounded)"
    by blast
  from py_round_Inr [OF pr] obtain q
    where q: "fadd (fadd taxable cgst) sgst = Fin q" "rounded = round_half_even q" by blast
  from d t c s tt q it show ?thesis by blast
qed

theorem transform_input_invoice_total_witness:
  "(\<exists>r. transform_input str_of_simple () test_decimal_invoice_data = Inr r \<and>
        invoice_total (tax_summary r) = Float_Number (Fin (4119482491427881 / 137438953472))) \<and>
   (\<exists>r. transform_input str_of_simple () test_decimal_without_total = Inr r \<and>
        invoice_total (tax_summary r) = Int_Number 29973)"
  using transform_input_invoice_total [OF transform_input_example [of "()"]]
    transform_input_invoice_total [OF transform_input_example_without_total [of "()"]]
    transform_input_example [of "()"] transform_input_example_without_total [of "()"]
  by simp

subsection \<open>Formatting an amount\<close>

lemma digit_value_digit_char: "d < 10 \<Longrightarrow> digit_value (digit_char d) = d"
  by (simp add: digit_value_def digit_char_def)

lemma is_digit_digit_char: "d < 10 \<Longrightarrow> is_digit (digit_char d)"
  by (simp add: is_digit_def digit_char_def)

lemma digits_value_snoc: "digits_value (ds @ [c]) = 10 * digits_value ds + digit_value c"
  by (simp add: digits_value_def)

lemma str_nat_digits: "list_all is_digit (str_nat k) \<and> str_nat k \<noteq> [] \<and> digits_value (str_nat k) = k"
proof (induction k rule: str_nat.induct)
  case (1 n)
  show ?case
  proof (cases "n < 10")
    case True
    then show ?thesis
      by (subst (1 2 3) str_nat.simps)
        (simp add: is_digit_digit_char digit_value_digit_char digits_value_def)
  next
    case False
    with 1 have ih: "list_all is_digit (str_nat (n div 10))" "str_nat (n div 10) \<noteq> []"
      "digits_value (str_nat (n div 10)) = n div 10" by simp_all
    have d: "n mod 10 < 10" by simp
    from False ih show ?thesis
      by (subst (1 2 3) str_nat.simps)
        (simp add: is_digit_digit_char [OF d] digit_value_digit_char [OF d] digits_value_snoc)
  qed
qed

lemma format_amount_int: "format_amount (Int_Number n) = Inr (str_int n)"
  by (simp add: format_amount_def)

lemma format_amount_whole:
  assumes "q = of_int \<lfloor>q\<rfloor>"
  shows "format_amount (Float_Number (Fin q)) = Inr (str_int \<lfloor>q\<rfloor>)"
proof -
  have z: "q - of_int \<lfloor>q\<rfloor> = 0" using assms by simp
  have "fmod1 (Fin q) = Fin 0" unfolding fmod1.simps z by (simp add: to_double_def)
  moreover have "\<lceil>q\<rceil> = \<lfloor>q\<rfloor>" by (subst (1 2) assms) (simp only: ceiling_of_int floor_of_int)
  ultimately show ?thesis by (simp add: format_amount_def and_then_def)
qed

lemma format_amount_fraction:
  assumes "is_double q" and "q \<noteq> of_int \<lfloor>q\<rfloor>"
  shows "format_amount (Float_Number (Fin q)) = Inr (format_2f (Fin q))"
proof -
  from is_double_frac [OF assms] have "fmod1 (Fin q) \<noteq> Fin 0" by simp
  then show ?thesis by (simp add: format_amount_def)
qed

text \<open>
  Claim C9. For a finite float \<open>q\<close>, \<open>format_amount\<close> returns the decimal numeral of \<open>q\<close>
  as an integer when \<open>q\<close> has no fractional part, and otherwise an optional minus sign, the
  digits of the whole part, a point and exactly two digits: \<open>q\<close> rounded to hundredths,
  ties to even. An integer argument is written as its decimal numeral. A decimal numeral
  is a non-empty string of digits, after a minus sign when negative, that reads back as
  the number.
\<close>

theorem format_amount_decimals:
  assumes "is_double q"
  shows "(if q = of_int \<lfloor>q\<rfloor>
          then format_amount (Float_Number (Fin q)) = Inr (str_int \<lfloor>q\<rfloor>)
          else format_amount (Float_Number (Fin q)) =
                 Inr ((if q < 0 then ''-'' else '''') @
                      str_nat (nat (round_half_even (\<bar>q\<bar> * 100)) div 100) @ ''.'' @
                      [digit_char (nat (round_half_even (\<bar>q\<bar> * 100)) mod 100 div 10),
                       digit_char (nat (round_half_even (\<bar>q\<bar> * 100)) mod 10)])) \<and>
         format_amount (Int_Number n) = Inr (str_int n) \<and>
         str_int n = (if n < 0 then ''-'' @ str_nat (nat (- n)) else str_nat (nat n)) \<and>
         list_all is_digit (str_nat k) \<and> str_nat k \<noteq> [] \<and> digits_value (str_nat k) = k \<and>
         is_digit (digit_char (k mod 10))"
proof -
  have a: "format_amount (Float_Number (Fin q)) = Inr (str_int \<lfloor>q\<rfloor>)" if "q = of_int \<lfloor>q\<rfloor>"
    using that by (rule format_amount_whole)
  have b: "format_amount (Float_Number (Fin q)) =
                 Inr ((if q < 0 then ''-'' else '''') @
                      str_nat (nat (round_half_even (\<bar>q\<bar> * 100)) div 100) @ ''.'' @
                      [digit_char (nat (round_half_even (\<bar>q\<bar> * 100)) mod 100 div 10),
                       digit_char (nat (round_half_even (\<bar>q\<bar> * 100)) mod 10)])"
    if "q \<noteq> of_int \<lfloor>q\<rfloor>"
    unfolding format_amount_fraction [OF assms that] by (simp add: format_2f_def Let_def)
  have d: "is_digit (digit_char (k mod 10))" by (rule is_digit_digit_char) simp
  from a b d str_nat_digits [of k] show ?thesis
    by (simp add: format_amount_int str_int_def)
qed

theorem format_amount_decimals_witness:
  "is_double (628395634285609 / 274877906944) \<and> is_double 2286 \<and>
   to_double (228609 / 100) = Fin (628395634285609 / 274877906944) \<and>
   format_amount (Float_Number (to_double (228609 / 100))) = Inr ''2286.09'' \<and>
   format_amount (Float_Number (Fin 2286)) = Inr ''2286'' \<and>
   format_amount (Int_Number 2286) = Inr ''2286''"
proof -
  have "\<lfloor>rat_of_int 628395634285609 / rat_of_int 274877906944\<rfloor> = 628395634285609 div 274877906944"
    by (rule floor_divide_of_int_eq)
  then have fl: "\<lfloor>628395634285609 / 274877906944 :: rat\<rfloor> = 2286"
    by simp
  have frac: "(628395634285609 / 274877906944 :: rat) \<noteq> of_int \<lfloor>628395634285609 / 274877906944 :: rat\<rfloor>"
    unfolding fl by simp
  have whole: "(2286 :: rat) = of_int \<lfloor>2286 :: rat\<rfloor>"
    by simp
  from format_amount_decimals [OF double_2286_09, of 2286 0] frac
  have "format_amount (Float_Number (Fin (628395634285609 / 274877906944))) =
          Inr ((if (628395634285609 / 274877906944 :: rat) < 0 then ''-'' else '''') @
            str_nat (nat (round_half_even (\<bar>628395634285609 / 274877906944\<bar> * 100)) div 100) @
            ''.'' @
            [digit_char (nat (round_half_even (\<bar>628395634285609 / 274877906944\<bar> * 100)) mod 100 div 10),
             digit_char (nat (round_half_even (\<bar>628395634285609 / 274877906944\<bar> * 100)) mod 10)])"
    by (simp only: if_False simp_thms)
  then have a: "format_amount (Float_Number (Fin (628395634285609 / 274877906944))) = Inr ''2286.09''"
    by (simp, simp add: hundredths_2286_09 str_nat_2286 digit_char_0 digit_char_9)
  from format_amount_decimals [OF double_2286, of 2286 0] whole
  have b: "format_amount (Float_Number (Fin 2286)) = Inr ''2286'' \<and>
           format_amount (Int_Number 2286) = Inr ''2286''"
    by (simp add: str_int_2286)
  from a b double_2286_09 double_2286 show ?thesis
    by (simp add: td_2286_09)
qed

subsection \<open>Missing fields in a request\<close>

lemma missing_fields_dict:
  "missing_fields fs (PDict d) = Inr (filter (\<lambda>field. field \<notin> fst ` set d) fs)"
  by (induction fs) (simp_all add: and_then_def)

lemma parse_event_direct:
  "''body'' \<notin> fst ` set d \<Longrightarrow> parse_event ext (PDict d) = Inr (PDict d)"
  by (simp add: parse_event_def and_then_def)

lemma parse_event_body_dict:
  "map_of ev ''body'' = Some (PDict d) \<Longrightarrow> parse_event ext (PDict ev) = Inr (PDict d)"
proof -
  assume m: "map_of ev ''body'' = Some (PDict d)"
  then have "(''body'', PDict d) \<in> set ev" by (rule map_of_SomeD)
  then have "''body'' \<in> fst ` set ev" by force
  with m show ?thesis
    by (simp add: parse_event_def and_then_def dict_get_def)
qed

lemma lambda_handler_try_dict:
  assumes "parse_event ext event = Inr (PDict d)"
  shows "lambda_handler_try ext event =
     (if filter (\<lambda>field. field \<notin> fst ` set d) required_fields \<noteq> [] then
         Inr \<lparr>statusCode = 400, headers = None,
              body = Error_Body (''Missing required fields: '' @
                       join '', '' (filter (\<lambda>field. field \<notin> fst ` set d) required_fields)) None,
              isBase64Encoded = None\<rparr>
       else
         and_then (generate_invoice ext (PDict d)) (\<lambda>pdf_bytes.
           Inr \<lparr>statusCode = 200,
                headers = Some [(''Content-Type'', ''application/pdf''),
                  (''Content-Disposition'',
                   ''attachment; filename=invoice_'' @
                     py_str ext (dict_get d ''invoice_no'' (PStr ''unknown'')) @ ''.pdf'')],
                body = Pdf_Body (b64encode ext pdf_bytes),
                isBase64Encoded = Some True\<rparr>))"
  using assms by (simp add: lambda_handler_try_def and_then_def missing_fields_dict)

text \<open>
  Claim C8. When the request parses to a record (a dictionary), \<open>lambda_handler\<close> answers
  with status 400 and a \<open>Missing required fields\<close> error if and only if one of the keys
  \<open>invoice_no\<close>, \<open>invoice_date\<close>, \<open>to\<close>, \<open>items\<close>, \<open>taxable_amount\<close>, \<open>total\<close> is absent from
  the record; the message then lists every absent key, in the order of that list,
  separated by a comma and a space.
\<close>

theorem lambda_handler_missing_fields:
  assumes "parse_event ext event = Inr (PDict d)"
    and "missing = filter (\<lambda>field. field \<notin> fst ` set d)
           [''invoice_no'', ''invoice_date'', ''to'', ''items'', ''taxable_amount'', ''total'']"
  shows "((statusCode (lambda_handler ext event) = 400 \<and>
           (\<exists>m. body (lambda_handler ext event) = Error_Body (''Missing required fields: '' @ m) None))
          \<longleftrightarrow> missing \<noteq> []) \<and>
         (if missing \<noteq> [] then
            lambda_handler ext event =
              \<lparr>statusCode = 400, headers = None,
               body = Error_Body (''Missing required fields: '' @ join '', '' missing) None,
               isBase64Encoded = None\<rparr>
          else (\<forall>m k. body (lambda_handler ext event) \<noteq>
                        Error_Body (''Missing required fields: '' @ m) k))"
proof (cases "missing = []")
  case True
  then have f: "filter (\<lambda>field. field \<notin> fst ` set d) required_fields = []"
    using assms(2) by (simp add: required_fields_def)
  have t: "lambda_handler_try ext event =
      and_then (generate_invoice ext (PDict d)) (\<lambda>pdf_bytes.
           Inr \<lparr>statusCode = 200,
                headers = Some [(''Content-Type'', ''application/pdf''),
                  (''Content-Disposition'',
                   ''attachment; filename=invoice_'' @
                     py_str ext (dict_get d ''invoice_no'' (PStr ''unknown'')) @ ''.pdf'')],
                body = Pdf_Body (b64encode ext pdf_bytes),
                isBase64Encoded = Some True\<rparr>)"
    unfolding lambda_handler_try_dict [OF assms(1)] f by simp
  have b: "\<forall>m k. body (lambda_handler ext event) \<noteq> Error_Body (''Missing required fields: '' @ m) k"
    unfolding lambda_handler_def t
    by (cases "generate_invoice ext (PDict d)") (simp_all add: and_then_def)
  with True show ?thesis by simp
next
  case False
  then have f: "filter (\<lambda>field. field \<notin> fst ` set d) required_fields = missing" "missing \<noteq> []"
    using assms(2) by (simp_all add: required_fields_def)
  have "lambda_handler ext event =
          \<lparr>statusCode = 400, headers = None,
           body = Error_Body (''Missing required fields: '' @ join '', '' missing) None,
           isBase64Encoded = None\<rparr>"
    unfolding lambda_handler_def lambda_handler_try_dict [OF assms(1)] f using f(2) by simp
  with False show ?thesis by simp
qed

lemma lambda_handler_example:
  "lambda_handler example_externals test_decimal_invoice_data =
     \<lparr>statusCode = 200,
      headers = Some [(''Content-Type'', ''application/pdf''),
        (''Content-Disposition'', ''attachment; filename=invoice_TEST-DECIMAL-001.pdf'')],
      body = Pdf_Body ''pdf'', isBase64Encoded = Some True\<rparr>"
proof -
  have p: "parse_event example_externals test_decimal_invoice_data = Inr test_decimal_invoice_data"
    unfolding test_decimal_invoice_data_def by (rule parse_event_direct) simp
  have m: "missing_fields required_fields test_decimal_invoice_data = Inr []"
    unfolding test_decimal_invoice_data_def missing_fields_dict
    by (simp add: required_fields_def)
  have g: "generate_invoice example_externals test_decimal_invoice_data = Inr ''pdf''"
    by (simp add: generate_invoice_def example_externals_def transform_input_example
        and_then_def)
  have n: "py_get test_decimal_invoice_data ''invoice_no'' (PStr ''unknown'') =
             Inr (PStr ''TEST-DECIMAL-001'')"
    by (simp add: test_decimal_invoice_data_def dict_get_def)
  have "lambda_handler_try example_externals test_decimal_invoice_data =
     Inr \<lparr>statusCode = 200,
      headers = Some [(''Content-Type'', ''application/pdf''),
        (''Content-Disposition'', ''attachment; filename=invoice_TEST-DECIMAL-001.pdf'')],
      body = Pdf_Body ''pdf'', isBase64Encoded = Some True\<rparr>"
    unfolding lambda_handler_try_def p and_then_def
    by (simp add: m g n) (simp add: example_externals_def)
  then show ?thesis by (simp add: lambda_handler_def)
qed

theorem lambda_handler_missing_fields_witness:
  "parse_event example_externals incomplete_invoice_data = Inr incomplete_invoice_data \<and>
   lambda_handler example_externals incomplete_invoice_data =
     \<lparr>statusCode = 400, headers = None,
      body = Error_Body ''Missing required fields: items, total'' None,
      isBase64Encoded = None\<rparr> \<and>
   parse_event example_externals test_decimal_invoice_data = Inr test_decimal_invoice_data \<and>
   lambda_handler example_externals test_decimal_invoice_data =
     \<lparr>statusCode = 200,
      headers = Some [(''Content-Type'', ''application/pdf''),
        (''Content-Disposition'', ''attachment; filename=invoice_TEST-DECIMAL-001.pdf'')],
      body = Pdf_Body ''pdf'', isBase64Encoded = Some True\<rparr> \<and>
   (\<forall>m k. body (lambda_handler example_externals test_decimal_invoice_data) \<noteq>
            Error_Body (''Missing required fields: '' @ m) k)"
proof -
  have p: "parse_event example_externals incomplete_invoice_data = Inr incomplete_invoice_data"
    unfolding incomplete_invoice_data_def by (rule parse_event_direct) simp
  have q: "parse_event example_externals test_decimal_invoice_data = Inr test_decimal_invoice_data"
    unfolding test_decimal_invoice_data_def by (rule parse_event_direct) simp
  have a: "lambda_handler example_externals incomplete_invoice_data =
     \<lparr>statusCode = 400, headers = None,
      body = Error_Body ''Missing required fields: items, total'' None,
      isBase64Encoded = None\<rparr>"
    using lambda_handler_missing_fields [OF p [unfolded incomplete_invoice_data_def] refl]
    by (simp add: incomplete_invoice_data_def)
  have b: "\<forall>m k. body (lambda_handler example_externals test_decimal_invoice_data) \<noteq>
            Error_Body (''Missing required fields: '' @ m) k"
    using lambda_handler_missing_fields [OF q [unfolded test_decimal_invoice_data_def] refl]
    by (simp add: test_decimal_invoice_data_def)
  from p q a b lambda_handler_example show ?thesis by simp
qed

end
